theory Spec2Isabelle
  imports Main "HOL-Library.AList" "HOL-Library.List_Lexorder" "HOL-Library.Product_Lexorder"
begin

section \<open>JavaScript strings and arrays\<close>

text \<open>
  Strings are lists of characters. Every string the program inspects by position
  (prefixes, separators, slices) is compared on ASCII characters only, where a
  JavaScript code unit and a \<^typ>\<open>char\<close> coincide.
\<close>

text \<open>\<^verbatim>\<open>str.split(sep)\<close> for a one-character separator: never the empty array,
  \<^verbatim>\<open>"".split(".")\<close> is \<^verbatim>\<open>[""]\<close>.\<close>

fun split :: "char \<Rightarrow> string \<Rightarrow> string list" where
  "split c [] = [[]]"
| "split c (x # xs) =
     (if x = c then [] # split c xs
      else (case split c xs of [] \<Rightarrow> [[x]] | w # ws \<Rightarrow> (x # w) # ws))"

text \<open>\<^verbatim>\<open>arr.join(sep)\<close> on an array of strings.\<close>

fun join :: "string \<Rightarrow> string list \<Rightarrow> string" where
  "join sep [] = []"
| "join sep [x] = x"
| "join sep (x # y # ys) = x @ sep @ join sep (y # ys)"

text \<open>\<^verbatim>\<open>arr[i]\<close>: \<^verbatim>\<open>undefined\<close> (here \<open>None\<close>) past the end.\<close>

definition nth_opt :: "'a list \<Rightarrow> nat \<Rightarrow> 'a option" where
  "nth_opt xs i = (if i < length xs then Some (xs ! i) else None)"

text \<open>Truthiness of a value that is a string or \<^verbatim>\<open>undefined\<close>: \<^verbatim>\<open>undefined\<close> and
  the empty string are falsy.\<close>

fun truthy :: "string option \<Rightarrow> bool" where
  "truthy None = False"
| "truthy (Some s) = (s \<noteq> [])"

text \<open>\<^verbatim>\<open>arr.filter(Boolean)\<close> on an array of strings and \<^verbatim>\<open>undefined\<close>s.\<close>

fun filter_Boolean :: "string option list \<Rightarrow> string list" where
  "filter_Boolean [] = []"
| "filter_Boolean (None # vs) = filter_Boolean vs"
| "filter_Boolean (Some s # vs) = (if s \<noteq> [] then s # filter_Boolean vs else filter_Boolean vs)"

text \<open>\<^verbatim>\<open>toLowerCase\<close> on the ASCII letters; every other character is left as it is (no
  character outside ASCII is mapped to a letter of a key that the model tables hold or
  inherit).\<close>

definition lower_char :: "char \<Rightarrow> char" where
  "lower_char c =
     (case map_of (zip ''ABCDEFGHIJKLMNOPQRSTUVWXYZ'' ''abcdefghijklmnopqrstuvwxyz'') c of
        None \<Rightarrow> c | Some d \<Rightarrow> d)"

definition toLowerCase :: "string \<Rightarrow> string" where
  "toLowerCase s = map lower_char s"

definition startsWith :: "string \<Rightarrow> string \<Rightarrow> bool" where
  "startsWith s p = (take (length p) s = p)"

definition endsWith :: "string \<Rightarrow> string \<Rightarrow> bool" where
  "endsWith s p = (length p \<le> length s \<and> drop (length s - length p) s = p)"

text \<open>\<^verbatim>\<open>s.slice(a, b)\<close> for non-negative indices: empty when \<open>b \<le> a\<close>.\<close>

definition slice :: "nat \<Rightarrow> nat \<Rightarrow> string \<Rightarrow> string" where
  "slice a b s = take (b - a) (drop a s)"

text \<open>Decimal rendering of a non-negative integer, as string concatenation and template
  literals do.\<close>

definition digit_char :: "nat \<Rightarrow> char" where
  "digit_char d = ''0123456789'' ! d"

function string_of_nat :: "nat \<Rightarrow> string" where
  "string_of_nat n =
     (if n < 10 then [digit_char n] else string_of_nat (n div 10) @ [digit_char (n mod 10)])"
  by pat_completeness auto
termination
  by (relation "measure id") auto

declare string_of_nat.simps [simp del]

section \<open>Version normalisation\<close>

text \<open>
  \<^verbatim>\<open>function hackBadSemver(str) {
    let [x, y, z, ...rest] = str.split(".");
    if (rest.length) { z += "-" + rest.join("-"); }
    return [x, y, z].filter(Boolean).join(".");
  }\<close>
  When \<open>rest\<close> is not empty the array has a fourth element, so \<open>z\<close> is defined there;
  the \<open>None\<close> branch of \<open>z +=\<close> (JavaScript would concatenate the text
  \<^verbatim>\<open>undefined\<close>) is never taken.
\<close>

definition hackBadSemver :: "string \<Rightarrow> string" where
  "hackBadSemver str =
     (let parts = split CHR ''.'' str;
          x = nth_opt parts 0;
          y = nth_opt parts 1;
          z = nth_opt parts 2;
          rest = drop 3 parts;
          z' = (if rest \<noteq> []
                then Some ((case z of None \<Rightarrow> ''undefined'' | Some zs \<Rightarrow> zs) @ ''-'' @ join ''-'' rest)
                else z)
      in join ''.'' (filter_Boolean [x, y, z']))"

section \<open>Port allocation\<close>

text \<open>The four host ports of an instance, computed in \<^verbatim>\<open>createSpeculosDevice\<close> from the
  counter after its increment.\<close>

definition apduPort :: "nat \<Rightarrow> nat" where
  "apduPort idCounter = 40000 + idCounter"

definition vncPort :: "nat \<Rightarrow> nat" where
  "vncPort idCounter = 41000 + idCounter"

definition buttonPort :: "nat \<Rightarrow> nat" where
  "buttonPort idCounter = 42000 + idCounter"

definition automationPort :: "nat \<Rightarrow> nat" where
  "automationPort idCounter = 43000 + idCounter"

definition ports :: "nat \<Rightarrow> nat list" where
  "ports idCounter =
     [apduPort idCounter, vncPort idCounter, buttonPort idCounter, automationPort idCounter]"

section \<open>Property lookup\<close>

text \<open>
  \<^verbatim>\<open>modelMap\<close> and \<^verbatim>\<open>modelMapPriority\<close> are object literals, so \<^verbatim>\<open>table[key]\<close> finds the
  properties of \<^verbatim>\<open>Object.prototype\<close> as well as the table's own: under one of the keys
  of the prototype the value is the inherited function or object, which is truthy and
  is neither a string nor a number. \<open>None\<close> is \<^verbatim>\<open>undefined\<close>. Two inherited values are the
  same object exactly when their keys are the same.
\<close>

datatype 'a property = Own 'a | Inherited string

definition object_prototype_keys :: "string list" where
  "object_prototype_keys =
     [''constructor'', ''__proto__'', ''hasOwnProperty'', ''isPrototypeOf'',
      ''propertyIsEnumerable'', ''toLocaleString'', ''toString'', ''valueOf'',
      ''__defineGetter__'', ''__defineSetter__'', ''__lookupGetter__'', ''__lookupSetter__'']"

definition lookup_property :: "(string \<times> 'a) list \<Rightarrow> string \<Rightarrow> 'a property option" where
  "lookup_property literal key =
     (case map_of literal key of
        Some v \<Rightarrow> Some (Own v)
      | None \<Rightarrow> if key \<in> set object_prototype_keys then Some (Inherited key) else None)"

text \<open>Truthiness of the result of a lookup in a table of strings, and of a value of a
  table of numbers.\<close>

fun truthy_model :: "string property option \<Rightarrow> bool" where
  "truthy_model None = False"
| "truthy_model (Some (Own s)) = (s \<noteq> [])"
| "truthy_model (Some (Inherited k)) = True"

fun truthy_priority :: "nat property \<Rightarrow> bool" where
  "truthy_priority (Own n) = (n \<noteq> 0)"
| "truthy_priority (Inherited k) = True"

section \<open>Application candidates and searches\<close>

text \<open>
  \<^verbatim>\<open>AppCandidate\<close>: one discovered application binary. The model is what the lookup in
  \<^verbatim>\<open>modelMap\<close> gave for the directory.
\<close>

record appCandidate =
  path :: string
  model :: "string property option"
  firmware :: string
  appName :: string
  appVersion :: string

text \<open>
  \<^verbatim>\<open>AppSearch\<close>: every field optional (\<open>None\<close> is \<^verbatim>\<open>undefined\<close>). The model is a string
  (\<open>Some (Own m)\<close>) or what \<^verbatim>\<open>eatDevice\<close> read in \<^verbatim>\<open>modelMap\<close>. The last field,
  \<open>search_version\<close>, is not part of the declared type: it is the property named
  \<^verbatim>\<open>version\<close> that the object literal of \<^verbatim>\<open>parseAppSearch\<close> writes.
\<close>

record appSearch =
  search_model :: "string property option"
  search_firmware :: "string option"
  search_appName :: "string option"
  search_appVersion :: "string option"
  search_version :: "string option"

definition modelMap :: "string \<Rightarrow> string property option" where
  "modelMap = lookup_property [(''nanos'', ''nanoS''), (''nanox'', ''nanoX''), (''blue'', ''blue'')]"

definition modelMapPriority :: "string \<Rightarrow> nat property option" where
  "modelMapPriority = lookup_property [(''nanos'', 3), (''nanox'', 2), (''blue'', 1)]"

text \<open>
  \<^verbatim>\<open>appCandidatesMatches\<close>. The range test \<^verbatim>\<open>semver.satisfies(version, range)\<close> belongs
  to the semver package and is a parameter here; it returns a boolean for every pair of
  strings (the package catches its own parse failures). A test \<^verbatim>\<open>!search.field\<close> holds
  for \<^verbatim>\<open>undefined\<close> and for the empty string. The models are compared by \<^verbatim>\<open>===\<close>.
\<close>

definition appCandidatesMatches ::
    "(string \<Rightarrow> string \<Rightarrow> bool) \<Rightarrow> appCandidate \<Rightarrow> appSearch \<Rightarrow> bool" where
  "appCandidatesMatches satisfies appCandidate search =
     ((\<not> truthy_model (search_model search) \<or> search_model search = model appCandidate) \<and>
      (case search_appName search of
         None \<Rightarrow> True
       | Some a \<Rightarrow> a = [] \<or> a = appName appCandidate) \<and>
      (case search_firmware search of
         None \<Rightarrow> True
       | Some f \<Rightarrow> f = [] \<or> firmware appCandidate = f \<or>
           satisfies (hackBadSemver (firmware appCandidate)) f) \<and>
      (case search_appVersion search of
         None \<Rightarrow> True
       | Some v \<Rightarrow> v = [] \<or> satisfies (appVersion appCandidate) v))"

text \<open>\<^verbatim>\<open>appCandidates.find((c) => appCandidatesMatches(c, search))\<close>\<close>

definition findAppCandidate ::
    "(string \<Rightarrow> string \<Rightarrow> bool) \<Rightarrow> appCandidate list \<Rightarrow> appSearch \<Rightarrow> appCandidate option" where
  "findAppCandidate satisfies appCandidates search =
     find (\<lambda>c. appCandidatesMatches satisfies c search) appCandidates"

section \<open>Query parsing\<close>

text \<open>
  \<^verbatim>\<open>eatDevice(parts)\<close> returns the device constraints and, because it shifts the array
  it was given, the segments that are left.
\<close>

definition eatDevice ::
    "string list \<Rightarrow> (string property option \<times> string option) \<times> string list" where
  "eatDevice parts =
     (case parts of
        [] \<Rightarrow> ((None, None), parts)
      | p # ps \<Rightarrow>
          (let sp = split CHR ''@'' p;
               modelQ = nth_opt sp 0;
               fw = nth_opt sp 1;
               md = modelMap (toLowerCase (case modelQ of None \<Rightarrow> [] | Some q \<Rightarrow> q))
           in if truthy_model md
              then (if truthy fw then ((md, fw), ps) else ((md, None), ps))
              else ((None, None), parts)))"

text \<open>The one field of a currency that the parser reads.\<close>

record cryptoCurrency =
  managerAppName :: string

record parsedQuery =
  search :: appSearch
  parsed_appName :: string
  dependency :: "string option"

text \<open>
  \<^verbatim>\<open>parseAppSearch(query)\<close>. The currency table (\<^verbatim>\<open>findCryptoCurrencyByKeyword\<close>) and the
  dependency table (\<^verbatim>\<open>getDependencies\<close>) live in other modules and are parameters.
  The search object is built as \<^verbatim>\<open>{ model, firmware, appName, version }\<close>.
\<close>

definition parseAppSearch ::
    "(string \<Rightarrow> cryptoCurrency option) \<Rightarrow> (string \<Rightarrow> string list) \<Rightarrow> string \<Rightarrow> parsedQuery option" where
  "parseAppSearch findCryptoCurrencyByKeyword getDependencies query =
     (let parts = split CHR '':'' (drop 9 query);
          ((md, fw), parts') = eatDevice parts
      in case parts' of
           [] \<Rightarrow> None
         | p # _ \<Rightarrow>
             (let sp = split CHR ''@'' p;
                  nameQ = (case nth_opt sp 0 of None \<Rightarrow> [] | Some q \<Rightarrow> q);
                  versionQ = nth_opt sp 1;
                  currency = findCryptoCurrencyByKeyword nameQ;
                  name = (case currency of None \<Rightarrow> nameQ | Some c \<Rightarrow> managerAppName c);
                  version = (if truthy versionQ then versionQ else None);
                  dep = (case currency of
                           None \<Rightarrow> None
                         | Some c \<Rightarrow> nth_opt (getDependencies (managerAppName c)) 0)
              in Some \<lparr>search = \<lparr>search_model = md, search_firmware = fw,
                                  search_appName = Some name, search_appVersion = None,
                                  search_version = version\<rparr>,
                        parsed_appName = name, dependency = dep\<rparr>))"

section \<open>Launching an instance\<close>

text \<open>The argument object of \<^verbatim>\<open>createSpeculosDevice\<close>.\<close>

record deviceSpec =
  spec_model :: string
  spec_firmware :: string
  spec_appName :: string
  spec_appVersion :: string
  spec_dependency :: "string option"
  spec_seed :: string
  spec_coinapps :: string

text \<open>The argument array handed to \<^verbatim>\<open>spawn("docker", [...])\<close> for the instance with the
  given identifier and counter value.\<close>

definition dockerArgs :: "string \<Rightarrow> nat \<Rightarrow> deviceSpec \<Rightarrow> string list" where
  "dockerArgs ident idCounter spec =
     [''run'',
      ''-v'', spec_coinapps spec @ '':/speculos/apps'',
      ''-p'', string_of_nat (apduPort idCounter) @ '':40000'',
      ''-p'', string_of_nat (vncPort idCounter) @ '':41000'',
      ''-p'', string_of_nat (buttonPort idCounter) @ '':42000'',
      ''-p'', string_of_nat (automationPort idCounter) @ '':43000'',
      ''-e'', ''SPECULOS_APPNAME='' @ spec_appName spec @ '':'' @ spec_appVersion spec,
      ''--name'', ident,
      ''ledgerhq/speculos'',
      ''--model'', toLowerCase (spec_model spec),
      ''./apps/'' @ toLowerCase (spec_model spec) @ ''/'' @ spec_firmware spec @ ''/'' @
        spec_appName spec @ ''/app_'' @ spec_appVersion spec @ ''.elf'']
     @ (case spec_dependency spec of
          None \<Rightarrow> []
        | Some d \<Rightarrow>
            if d \<noteq> [] then
              [''-l'',
               d @ '':'' @ (''./apps/'' @ toLowerCase (spec_model spec) @ ''/'' @ spec_firmware spec @
                 ''/'' @ d @ ''/app_'' @ spec_appVersion spec @ ''.elf'')]
            else [])
     @ [''--sdk'', ''1.6'',
        ''--seed'', spec_seed spec,
        ''--display'', ''headless'',
        ''--vnc-password'', ''live'',
        ''--apdu-port'', ''40000'',
        ''--vnc-port'', ''41000'',
        ''--button-port'', ''42000'',
        ''--automation-port'', ''43000'']"

section \<open>The instance registry\<close>

datatype error =
    Error string
  | InvalidVersion
  | ReaddirFailed string
  | ExecFailed string

text \<open>How a promise ends: settled with a value, settled with an error, or never settled.\<close>

datatype 'a promise = Pending | Resolved 'a | Rejected error

text \<open>What the module does to the outside and to its table, in the order it does it.\<close>

datatype event =
    Log string string
  | Spawn string "string list"
  | Exec string
  | Assign string
  | Delete string

text \<open>
  A record of the table \<^verbatim>\<open>data\<close>. The process handle is named by the container it runs;
  \<open>inst_destroy\<close> is the identifier that the record's \<^verbatim>\<open>destroy\<close> closure has captured.
\<close>

record 'h deviceInstance =
  process :: string
  inst_apduPort :: nat
  inst_buttonPort :: nat
  inst_automationPort :: nat
  transport :: 'h
  inst_destroy :: string

text \<open>
  The module state: the counter, the table \<^verbatim>\<open>data\<close> (an object whose keys are kept in
  insertion order, as \<^verbatim>\<open>Object.keys\<close> lists them), and the events so far.
\<close>

record 'h registry =
  idCounter :: nat
  data :: "(string \<times> 'h deviceInstance) list"
  trace :: "event list"

definition initial :: "'h registry" where
  "initial = \<lparr>idCounter = 0, data = [], trace = []\<rparr>"

definition emit :: "event \<Rightarrow> 'h registry \<Rightarrow> 'h registry" where
  "emit e st = st\<lparr>trace := trace st @ [e]\<rparr>"

text \<open>
  The closure \<^verbatim>\<open>destroy\<close> of the instance \<open>ident\<close>. \<open>docker\<close> is the outcome of the
  removal command: \<open>None\<close> when it succeeds, else the text of the error and of the
  diagnostic output. The executor returns before calling \<^verbatim>\<open>resolve\<close> or \<^verbatim>\<open>reject\<close>
  when the entry is gone, so that promise is never settled. The callback of \<^verbatim>\<open>exec\<close>
  is run right after the request.
\<close>

definition destroy ::
    "(string \<Rightarrow> (string \<times> string) option) \<Rightarrow> string \<Rightarrow> 'h registry \<Rightarrow> 'h registry \<times> unit promise" where
  "destroy docker ident st =
     (case map_of (data st) ident of
        None \<Rightarrow> (st, Pending)
      | Some _ \<Rightarrow>
          (let st1 = emit (Delete ident) (st\<lparr>data := AList.delete ident (data st)\<rparr>);
               cmd = ''docker rm -f '' @ ident;
               st2 = emit (Exec cmd) st1
           in case docker cmd of
                Some (err, stderr) \<Rightarrow>
                  (emit (Log ''speculos''
                     (''ERROR: could not destroy '' @ ident @ '': '' @ err @ '' '' @ stderr)) st2,
                   Rejected (ExecFailed err))
              | None \<Rightarrow>
                  (emit (Log ''speculos'' (''destroyed '' @ ident)) st2, Resolved ())))"

text \<open>\<^verbatim>\<open>releaseSpeculosDevice(id)\<close>: the promise of \<^verbatim>\<open>obj.destroy()\<close> is dropped.\<close>

definition releaseSpeculosDevice ::
    "(string \<Rightarrow> (string \<times> string) option) \<Rightarrow> string \<Rightarrow> 'h registry \<Rightarrow> 'h registry" where
  "releaseSpeculosDevice docker ident st =
     (let st1 = emit (Log ''speculos'' (''release '' @ ident)) st
      in case map_of (data st1) ident of
           None \<Rightarrow> st1
         | Some obj \<Rightarrow> fst (destroy docker (inst_destroy obj) st1))"

text \<open>\<^verbatim>\<open>Object.keys(data).forEach(releaseSpeculosDevice)\<close>: the keys are read once.\<close>

definition closeAllSpeculosDevices ::
    "(string \<Rightarrow> (string \<times> string) option) \<Rightarrow> 'h registry \<Rightarrow> 'h registry" where
  "closeAllSpeculosDevices docker st = fold (releaseSpeculosDevice docker) (map fst (data st)) st"

text \<open>The \<^verbatim>\<open>disconnect\<close> entry of the transport module.\<close>

definition disconnect ::
    "(string \<Rightarrow> (string \<times> string) option) \<Rightarrow> string \<Rightarrow> 'h registry \<Rightarrow> 'h registry" where
  "disconnect docker deviceId st =
     (case map_of (data st) deviceId of
        None \<Rightarrow> st
      | Some obj \<Rightarrow> fst (destroy docker (inst_destroy obj) st))"

text \<open>
  What the spawned process does before the caller is resumed: it prints the readiness
  marker on its diagnostic stream, or it closes first, or it does neither.
\<close>

datatype readiness = Marker | Closed | Silent

text \<open>
  \<^verbatim>\<open>createSpeculosDevice\<close>. \<open>opened\<close> is the outcome of \<^verbatim>\<open>SpeculosTransport.open\<close> on
  the three ports. When the process closes before the marker, the handler calls
  \<open>destroy\<close> (the entry is not registered yet) and rejects the readiness promise.
  The copies of the process output to the log and to the console are left out.
\<close>

definition createSpeculosDevice ::
    "(string \<Rightarrow> (string \<times> string) option) \<Rightarrow> deviceSpec \<Rightarrow> readiness \<Rightarrow> error + 'h \<Rightarrow> 'h registry \<Rightarrow>
       'h registry \<times> (string \<times> 'h) promise" where
  "createSpeculosDevice docker spec rd opened st =
     (let n = idCounter st + 1;
          ident = ''speculosID-'' @ string_of_nat n;
          st1 = emit (Log ''speculos''
                  (''spawning with apdu='' @ string_of_nat (apduPort n) @
                   '' button='' @ string_of_nat (buttonPort n)))
                  (st\<lparr>idCounter := n\<rparr>);
          st2 = emit (Spawn ''docker'' (dockerArgs ident n spec)) st1
      in case rd of
           Silent \<Rightarrow> (st2, Pending)
         | Closed \<Rightarrow>
             (fst (destroy docker ident st2),
              Rejected (Error ''speculos process failure. Try `ledger-live cleanSpeculos` or check logs''))
         | Marker \<Rightarrow>
             (case opened of
                Inl e \<Rightarrow> (st2, Rejected e)
              | Inr t \<Rightarrow>
                  (emit (Assign ident)
                     (st2\<lparr>data := AList.update ident
                        \<lparr>process = ident, inst_apduPort = apduPort n,
                         inst_buttonPort = buttonPort n,
                         inst_automationPort = automationPort n,
                         transport = t, inst_destroy = ident\<rparr> (data st2)\<rparr>),
                   Resolved (ident, t))))"

text \<open>
  The \<^verbatim>\<open>open\<close> entry of the transport module: it throws, returns a promise of the
  registered transport, hands the identifier to \<^verbatim>\<open>openImplicitSpeculos\<close>, or returns
  \<^verbatim>\<open>undefined\<close>.
\<close>

datatype 'h opened = Threw error | Transport 'h | Implicit string | Undefined

definition transport_open :: "string \<Rightarrow> 'h registry \<Rightarrow> 'h opened" where
  "transport_open ident st =
     (if startsWith ident ''speculosID'' then
        (case map_of (data st) ident of
           None \<Rightarrow> Threw (Error ''speculos transport was destroyed'')
         | Some obj \<Rightarrow> Transport (transport obj))
      else if startsWith ident ''speculos:'' then Implicit ident
      else Undefined)"

text \<open>The calls that reach the table, and a run of them.\<close>

datatype 'h call =
    Create "string \<Rightarrow> (string \<times> string) option" deviceSpec readiness "error + 'h"
  | Release "string \<Rightarrow> (string \<times> string) option" string
  | CloseAll "string \<Rightarrow> (string \<times> string) option"
  | Disconnect "string \<Rightarrow> (string \<times> string) option" string
  | ProcessClose "string \<Rightarrow> (string \<times> string) option" string
  | Open string

fun step :: "'h call \<Rightarrow> 'h registry \<Rightarrow> 'h registry" where
  "step (Create docker spec rd opened) st = fst (createSpeculosDevice docker spec rd opened st)"
| "step (Release docker ident) st = releaseSpeculosDevice docker ident st"
| "step (CloseAll docker) st = closeAllSpeculosDevices docker st"
| "step (Disconnect docker ident) st = disconnect docker ident st"
| "step (ProcessClose docker ident) st = fst (destroy docker ident st)"
| "step (Open ident) st = st"

text \<open>The calls that may remove the entry of \<open>ident\<close>.\<close>

fun removes :: "string \<Rightarrow> 'h call \<Rightarrow> bool" where
  "removes ident (Release _ i) = (i = ident)"
| "removes ident (Disconnect _ i) = (i = ident)"
| "removes ident (ProcessClose _ i) = (i = ident)"
| "removes ident (CloseAll _) = True"
| "removes ident _ = False"

text \<open>The removal commands among the events.\<close>

fun execs :: "event list \<Rightarrow> string list" where
  "execs [] = []"
| "execs (Exec c # es) = c # execs es"
| "execs (_ # es) = execs es"

text \<open>The processes started among the events: the command and its arguments.\<close>

fun spawns :: "event list \<Rightarrow> (string \<times> string list) list" where
  "spawns [] = []"
| "spawns (Spawn c args # es) = (c, args) # spawns es"
| "spawns (_ # es) = spawns es"

section \<open>Semantic versions\<close>

text \<open>
  The semver package is a dependency of the program; what the program calls of it is
  modelled here on the package's strict grammar
  \<^verbatim>\<open>v?MAJOR.MINOR.PATCH(-PRERELEASE)?(+BUILD)?\<close>. White space is the ASCII white space.
\<close>

definition is_digit :: "char \<Rightarrow> bool" where
  "is_digit c = (c \<in> set ''0123456789'')"

definition is_letter_or_dash :: "char \<Rightarrow> bool" where
  "is_letter_or_dash c =
     (c \<in> set ''abcdefghijklmnopqrstuvwxyzABCDEFGHIJKLMNOPQRSTUVWXYZ-'')"

definition is_white :: "char \<Rightarrow> bool" where
  "is_white c = (c \<in> {CHR '' '', CHR 0x09, CHR 0x0A, CHR 0x0B, CHR 0x0C, CHR 0x0D})"

text \<open>\<^verbatim>\<open>0|[1-9]\d*\<close>\<close>

definition numeric_identifier :: "string \<Rightarrow> bool" where
  "numeric_identifier s = (s \<noteq> [] \<and> list_all is_digit s \<and> (s = ''0'' \<or> hd s \<noteq> CHR ''0''))"

text \<open>\<^verbatim>\<open>\d*[a-zA-Z-][a-zA-Z0-9-]*\<close>\<close>

definition nonnumeric_identifier :: "string \<Rightarrow> bool" where
  "nonnumeric_identifier s =
     (list_all (\<lambda>c. is_digit c \<or> is_letter_or_dash c) s \<and> list_ex is_letter_or_dash s)"

definition prerelease_identifier :: "string \<Rightarrow> bool" where
  "prerelease_identifier s = (nonnumeric_identifier s \<or> numeric_identifier s)"

text \<open>\<^verbatim>\<open>[0-9A-Za-z-]+\<close>\<close>

definition build_identifier :: "string \<Rightarrow> bool" where
  "build_identifier s = (s \<noteq> [] \<and> list_all (\<lambda>c. is_digit c \<or> is_letter_or_dash c) s)"

definition digit_value :: "char \<Rightarrow> nat" where
  "digit_value c =
     (case map_of (zip ''0123456789'' [0, 1, 2, 3, 4, 5, 6, 7, 8, 9]) c of
        None \<Rightarrow> 0 | Some d \<Rightarrow> d)"

definition nat_of_digits :: "string \<Rightarrow> nat" where
  "nat_of_digits s = foldl (\<lambda>a c. 10 * a + digit_value c) 0 s"

definition MAX_LENGTH :: nat where
  "MAX_LENGTH = 256"

definition MAX_SAFE_INTEGER :: nat where
  "MAX_SAFE_INTEGER = 9007199254740991"

text \<open>
  The anchored pattern \<^verbatim>\<open>FULL\<close>: the three numeric identifiers, the pre-release text
  and the build text of a string that matches. The main version holds digits and dots
  only and the pre-release text holds no plus sign, so the first plus sign starts the
  build text and the first hyphen before it starts the pre-release text.
\<close>

definition FULL :: "string \<Rightarrow> (string \<times> string \<times> string \<times> string option \<times> string option) option" where
  "FULL s =
     (let s1 = (case s of [] \<Rightarrow> [] | c # cs \<Rightarrow> if c = CHR ''v'' then cs else s);
          front = takeWhile (\<lambda>c. c \<noteq> CHR ''+'') s1;
          back = dropWhile (\<lambda>c. c \<noteq> CHR ''+'') s1;
          build = (if back = [] then None else Some (tl back));
          main = takeWhile (\<lambda>c. c \<noteq> CHR ''-'') front;
          after = dropWhile (\<lambda>c. c \<noteq> CHR ''-'') front;
          pre = (if after = [] then None else Some (tl after))
      in case split CHR ''.'' main of
           [a, b, c] \<Rightarrow>
             if numeric_identifier a \<and> numeric_identifier b \<and> numeric_identifier c \<and>
                (case pre of None \<Rightarrow> True
                 | Some p \<Rightarrow> list_all prerelease_identifier (split CHR ''.'' p)) \<and>
                (case build of None \<Rightarrow> True
                 | Some b \<Rightarrow> list_all build_identifier (split CHR ''.'' b))
             then Some (a, b, c, pre, build)
             else None
         | _ \<Rightarrow> None)"

definition trim :: "string \<Rightarrow> string" where
  "trim s = rev (dropWhile is_white (rev (dropWhile is_white s)))"

datatype ident = Num nat | Str string

record semver =
  major :: nat
  minor :: nat
  patch :: nat
  prerelease :: "ident list"

text \<open>
  \<^verbatim>\<open>new SemVer(version)\<close>: every failure is a \<^verbatim>\<open>TypeError\<close>. A pre-release identifier
  of digits becomes a number when its value is below \<^verbatim>\<open>MAX_SAFE_INTEGER\<close> and stays a
  string otherwise. (The conversions \<^verbatim>\<open>+m[1]\<close> and \<^verbatim>\<open>+id\<close> are to double precision; a
  value is above, or below, \<open>2^53 - 1\<close> exactly when its double is.)
\<close>

definition SemVer :: "string \<Rightarrow> error + semver" where
  "SemVer version =
     (if length version > MAX_LENGTH then Inl InvalidVersion
      else case FULL (trim version) of
             None \<Rightarrow> Inl InvalidVersion
           | Some (a, b, c, pre, build) \<Rightarrow>
               if nat_of_digits a > MAX_SAFE_INTEGER \<or> nat_of_digits b > MAX_SAFE_INTEGER \<or>
                  nat_of_digits c > MAX_SAFE_INTEGER
               then Inl InvalidVersion
               else Inr \<lparr>major = nat_of_digits a, minor = nat_of_digits b, patch = nat_of_digits c,
                         prerelease =
                           (case pre of
                              None \<Rightarrow> []
                            | Some p \<Rightarrow>
                                map (\<lambda>i. if list_all is_digit i \<and> nat_of_digits i < MAX_SAFE_INTEGER
                                         then Num (nat_of_digits i) else Str i)
                                  (split CHR ''.'' p))\<rparr>)"

text \<open>
  \<^verbatim>\<open>semver.valid(version)\<close> is read for its truthiness only: the pattern is tested on
  the string as given, then the constructor is tried.
\<close>

definition semver_valid :: "string \<Rightarrow> bool" where
  "semver_valid version =
     (length version \<le> MAX_LENGTH \<and> FULL version \<noteq> None \<and>
      (case SemVer version of Inl _ \<Rightarrow> False | Inr _ \<Rightarrow> True))"

text \<open>The comparison \<^verbatim>\<open><\<close> of two strings, by code units.\<close>

fun string_less :: "string \<Rightarrow> string \<Rightarrow> bool" where
  "string_less [] [] = False"
| "string_less [] (y # ys) = True"
| "string_less (x # xs) [] = False"
| "string_less (x # xs) (y # ys) =
     ((of_char x :: nat) < of_char y \<or> (x = y \<and> string_less xs ys))"

text \<open>The number of binary digits of a number.\<close>

function bit_length :: "nat \<Rightarrow> nat" where
  "bit_length n = (if n = 0 then 0 else Suc (bit_length (n div 2)))"
  by pat_completeness auto
termination
  by (relation "measure id") auto

declare bit_length.simps [simp del]

text \<open>
  The double nearest to a natural number, ties to the even significand: what \<^verbatim>\<open>+a\<close>
  gives in Node for a string of digits. A version has at most 256 characters, so the value is
  below \<open>10^256\<close> and the double is finite; a double of \<open>2^53\<close> or more is a whole number.
\<close>

definition to_double :: "nat \<Rightarrow> nat" where
  "to_double n =
     (if n < 2 ^ 53 then n
      else let e = bit_length n - 53;
               q = n div 2 ^ e;
               r = n mod 2 ^ e;
               h = 2 ^ (e - 1)
           in if h < r \<or> (r = h \<and> odd q) then (q + 1) * 2 ^ e else q * 2 ^ e)"

text \<open>\<^verbatim>\<open>/^[0-9]+$/.test(a)\<close> and \<^verbatim>\<open>+a\<close> for an identifier that is a number or a string.\<close>

fun is_numeric :: "ident \<Rightarrow> bool" where
  "is_numeric (Num n) = True"
| "is_numeric (Str s) = (s \<noteq> [] \<and> list_all is_digit s)"

fun to_number :: "ident \<Rightarrow> nat" where
  "to_number (Num n) = n"
| "to_number (Str s) = to_double (nat_of_digits s)"

text \<open>\<^verbatim>\<open>a < b\<close> on two numbers or on two strings (the comparison is reached with no
  other pair).\<close>

fun ident_less :: "ident \<Rightarrow> ident \<Rightarrow> bool" where
  "ident_less (Num a) (Num b) = (a < b)"
| "ident_less (Str a) (Str b) = string_less a b"
| "ident_less _ _ = False"

text \<open>
  \<^verbatim>\<open>const compareIdentifiers = (a, b) => {
    const anum = numeric.test(a)
    const bnum = numeric.test(b)
    if (anum && bnum) { a = +a; b = +b }
    return a === b ? 0 : (anum && !bnum) ? -1 : (bnum && !anum) ? 1 : a < b ? -1 : 1
  }\<close>
\<close>

definition compareIdentifiers :: "ident \<Rightarrow> ident \<Rightarrow> int" where
  "compareIdentifiers a b =
     (let anum = is_numeric a;
          bnum = is_numeric b;
          a' = (if anum \<and> bnum then Num (to_number a) else a);
          b' = (if anum \<and> bnum then Num (to_number b) else b)
      in if a' = b' then 0
         else if anum \<and> \<not> bnum then - 1
         else if bnum \<and> \<not> anum then 1
         else if ident_less a' b' then - 1 else 1)"

definition compareMain :: "semver \<Rightarrow> semver \<Rightarrow> int" where
  "compareMain v w =
     (if compareIdentifiers (Num (major v)) (Num (major w)) \<noteq> 0
      then compareIdentifiers (Num (major v)) (Num (major w))
      else if compareIdentifiers (Num (minor v)) (Num (minor w)) \<noteq> 0
      then compareIdentifiers (Num (minor v)) (Num (minor w))
      else compareIdentifiers (Num (patch v)) (Num (patch w)))"

text \<open>The loop of \<^verbatim>\<open>comparePre\<close> over the two identifier arrays.\<close>

fun comparePre_loop :: "ident list \<Rightarrow> ident list \<Rightarrow> int" where
  "comparePre_loop [] [] = 0"
| "comparePre_loop (a # as) [] = 1"
| "comparePre_loop [] (b # bs) = - 1"
| "comparePre_loop (a # as) (b # bs) =
     (if a = b then comparePre_loop as bs else compareIdentifiers a b)"

definition comparePre :: "semver \<Rightarrow> semver \<Rightarrow> int" where
  "comparePre v w =
     (if prerelease v \<noteq> [] \<and> prerelease w = [] then - 1
      else if prerelease v = [] \<and> prerelease w \<noteq> [] then 1
      else if prerelease v = [] \<and> prerelease w = [] then 0
      else comparePre_loop (prerelease v) (prerelease w))"

definition compare_versions :: "semver \<Rightarrow> semver \<Rightarrow> int" where
  "compare_versions v w = (if compareMain v w \<noteq> 0 then compareMain v w else comparePre v w)"

text \<open>\<^verbatim>\<open>semver.compare(a, b)\<close>: both versions are constructed, the first one first.\<close>

definition semver_compare :: "string \<Rightarrow> string \<Rightarrow> error + int" where
  "semver_compare a b =
     (case SemVer a of
        Inl e \<Rightarrow> Inl e
      | Inr v \<Rightarrow> (case SemVer b of Inl e \<Rightarrow> Inl e | Inr w \<Rightarrow> Inr (compare_versions v w)))"

section \<open>Scanning the application tree\<close>

text \<open>
  \<^verbatim>\<open>arr.sort(compare)\<close> with a comparison that may throw: a stable sort; an element goes
  before the elements it does not compare greater than. With two or more elements
  every element is compared at least once, and the first failing comparison ends the
  sort. Where the comparison is not an order the result of a sort depends on the
  engine; in the examples of that kind below the comparison of every two neighbours is
  zero, and the array stays as it is.
\<close>

fun insert_sorted :: "('a \<Rightarrow> 'a \<Rightarrow> error + int) \<Rightarrow> 'a \<Rightarrow> 'a list \<Rightarrow> error + 'a list" where
  "insert_sorted cmp x [] = Inr [x]"
| "insert_sorted cmp x (y # ys) =
     (case cmp x y of
        Inl e \<Rightarrow> Inl e
      | Inr k \<Rightarrow>
          if k \<le> 0 then Inr (x # y # ys)
          else (case insert_sorted cmp x ys of Inl e \<Rightarrow> Inl e | Inr zs \<Rightarrow> Inr (y # zs)))"

fun array_sort :: "('a \<Rightarrow> 'a \<Rightarrow> error + int) \<Rightarrow> 'a list \<Rightarrow> error + 'a list" where
  "array_sort cmp [] = Inr []"
| "array_sort cmp (x # xs) =
     (case array_sort cmp xs of Inl e \<Rightarrow> Inl e | Inr ys \<Rightarrow> insert_sorted cmp x ys)"

text \<open>
  The file system as the scan sees it: \<^verbatim>\<open>fsp.readdir(path)\<close> gives the names in a
  directory or fails.
\<close>

type_synonym readdir = "string \<Rightarrow> error + string list"

text \<open>
  \<^verbatim>\<open>path.join\<close> and \<^verbatim>\<open>path.normalize\<close> of Node, with the separator of POSIX. The segments
  of the joined path are read from left to right: an empty segment and a single dot are
  dropped, two dots remove the segment before them (or stay, in a relative path, when
  there is none to remove).
\<close>

fun normalize_segments :: "bool \<Rightarrow> string list \<Rightarrow> string list \<Rightarrow> string list" where
  "normalize_segments allowAboveRoot res [] = res"
| "normalize_segments allowAboveRoot res (seg # segs) =
     (if seg = [] \<or> seg = ''.'' then normalize_segments allowAboveRoot res segs
      else if seg = ''..'' then
        (if res \<noteq> [] \<and> last res \<noteq> ''..''
         then normalize_segments allowAboveRoot (butlast res) segs
         else if allowAboveRoot then normalize_segments allowAboveRoot (res @ [''..'']) segs
         else normalize_segments allowAboveRoot res segs)
      else normalize_segments allowAboveRoot (res @ [seg]) segs)"

definition path_normalize :: "string \<Rightarrow> string" where
  "path_normalize p =
     (if p = [] then ''.''
      else let isAbsolute = (hd p = CHR ''/'');
               trailingSeparator = (last p = CHR ''/'');
               body = join ''/'' (normalize_segments (\<not> isAbsolute) [] (split CHR ''/'' p))
           in if body = [] then
                (if isAbsolute then ''/'' else if trailingSeparator then ''./'' else ''.'')
              else (if isAbsolute then ''/'' else []) @ body @
                   (if trailingSeparator then ''/'' else []))"

definition path_join :: "string \<Rightarrow> string \<Rightarrow> string" where
  "path_join a b =
     (let joined = join ''/'' (filter (\<lambda>arg. arg \<noteq> []) [a, b])
      in if joined = [] then ''.'' else path_normalize joined)"

text \<open>
  The pairs \<^verbatim>\<open>[modelName, priority]\<close> that pass \<^verbatim>\<open>.filter(([, priority]) => priority)\<close>:
  the directory names that are model aliases, and those that are keys of the prototype.
\<close>

fun model_entries :: "string list \<Rightarrow> (string \<times> nat property) list" where
  "model_entries [] = []"
| "model_entries (modelName # names) =
     (case modelMapPriority (toLowerCase modelName) of
        None \<Rightarrow> model_entries names
      | Some priority \<Rightarrow>
          if truthy_priority priority then (modelName, priority) # model_entries names
          else model_entries names)"

text \<open>
  \<^verbatim>\<open>b[1] - a[1]\<close> as the sort reads it: the difference of two numbers; with an inherited
  value on either side the difference is \<^verbatim>\<open>NaN\<close>, which a sort takes for zero.
\<close>

fun priority_difference :: "nat property \<Rightarrow> nat property \<Rightarrow> int" where
  "priority_difference (Own x) (Own y) = int x - int y"
| "priority_difference _ _ = 0"

text \<open>The loop over the files of one application directory, before the sort.\<close>

fun scan_elfs ::
    "string \<Rightarrow> string property option \<Rightarrow> string \<Rightarrow> string \<Rightarrow> string list \<Rightarrow> appCandidate list" where
  "scan_elfs p3 md fw name [] = []"
| "scan_elfs p3 md fw name (elf # elfs) =
     (if startsWith elf ''app_'' \<and> endsWith elf ''.elf'' then
        (let p4 = path_join p3 elf;
             version = slice 4 (length elf - 4) elf
         in if semver_valid version
            then \<lparr>path = p4, model = md, firmware = fw, appName = name, appVersion = version\<rparr>
                   # scan_elfs p3 md fw name elfs
            else scan_elfs p3 md fw name elfs)
      else scan_elfs p3 md fw name elfs)"

text \<open>One application directory: its candidates, latest version first.\<close>

definition scan_app ::
    "readdir \<Rightarrow> string \<Rightarrow> string property option \<Rightarrow> string \<Rightarrow> string \<Rightarrow> error + appCandidate list" where
  "scan_app readdir p2 md fw name =
     (let p3 = path_join p2 name
      in case readdir p3 of
           Inl e \<Rightarrow> Inl e
         | Inr elfs \<Rightarrow>
             (case array_sort (\<lambda>a b. semver_compare (appVersion a) (appVersion b))
                     (scan_elfs p3 md fw name elfs) of
                Inl e \<Rightarrow> Inl e
              | Inr c \<Rightarrow> Inr (rev c)))"

fun scan_apps ::
    "readdir \<Rightarrow> string \<Rightarrow> string property option \<Rightarrow> string \<Rightarrow> string list \<Rightarrow> error + appCandidate list" where
  "scan_apps readdir p2 md fw [] = Inr []"
| "scan_apps readdir p2 md fw (name # names) =
     (case scan_app readdir p2 md fw name of
        Inl e \<Rightarrow> Inl e
      | Inr c \<Rightarrow>
          (case scan_apps readdir p2 md fw names of
             Inl e \<Rightarrow> Inl e
           | Inr cs \<Rightarrow> Inr (c @ cs)))"

definition scan_firmware ::
    "readdir \<Rightarrow> string \<Rightarrow> string property option \<Rightarrow> string \<Rightarrow> error + appCandidate list" where
  "scan_firmware readdir p1 md fw =
     (let p2 = path_join p1 fw
      in case readdir p2 of
           Inl e \<Rightarrow> Inl e
         | Inr appNames \<Rightarrow> scan_apps readdir p2 md fw appNames)"

fun scan_firmwares ::
    "readdir \<Rightarrow> string \<Rightarrow> string property option \<Rightarrow> string list \<Rightarrow> error + appCandidate list" where
  "scan_firmwares readdir p1 md [] = Inr []"
| "scan_firmwares readdir p1 md (fw # fws) =
     (case scan_firmware readdir p1 md fw of
        Inl e \<Rightarrow> Inl e
      | Inr c \<Rightarrow>
          (case scan_firmwares readdir p1 md fws of
             Inl e \<Rightarrow> Inl e
           | Inr cs \<Rightarrow> Inr (c @ cs)))"

text \<open>One model directory.\<close>

definition scan_model :: "readdir \<Rightarrow> string \<Rightarrow> string \<Rightarrow> error + appCandidate list" where
  "scan_model readdir cwd modelName =
     (let md = modelMap (toLowerCase modelName);
          p1 = path_join cwd modelName
      in case readdir p1 of
           Inl e \<Rightarrow> Inl e
         | Inr firmwares \<Rightarrow>
             (case array_sort (\<lambda>a b. semver_compare (hackBadSemver a) (hackBadSemver b)) firmwares of
                Inl e \<Rightarrow> Inl e
              | Inr sorted_firmwares \<Rightarrow> scan_firmwares readdir p1 md (rev sorted_firmwares)))"

fun scan_models :: "readdir \<Rightarrow> string \<Rightarrow> string list \<Rightarrow> error + appCandidate list" where
  "scan_models readdir cwd [] = Inr []"
| "scan_models readdir cwd (modelName # models) =
     (case scan_model readdir cwd modelName of
        Inl e \<Rightarrow> Inl e
      | Inr c \<Rightarrow>
          (case scan_models readdir cwd models of
             Inl e \<Rightarrow> Inl e
           | Inr cs \<Rightarrow> Inr (c @ cs)))"

definition listAppCandidates :: "readdir \<Rightarrow> string \<Rightarrow> error + appCandidate list" where
  "listAppCandidates readdir cwd =
     (case readdir cwd of
        Inl e \<Rightarrow> Inl e
      | Inr names \<Rightarrow>
          (case array_sort (\<lambda>a b. Inr (priority_difference (snd b) (snd a)))
                  (model_entries names) of
             Inl e \<Rightarrow> Inl e
           | Inr models \<Rightarrow> scan_models readdir cwd (map fst models)))"

text \<open>
  The tree of the example: models \<open>nanos\<close> and \<open>nanox\<close>, two firmwares under each, and
  under each firmware the application \<open>bitcoin\<close> in versions 1.2.0 and 1.3.1.
\<close>

definition fixture :: "string \<Rightarrow> string \<Rightarrow> readdir" where
  "fixture fw1 fw2 p =
     (if p = ''apps'' then Inr [''nanos'', ''nanox'']
      else if p \<in> {''apps/nanos'', ''apps/nanox''} then Inr [fw1, fw2]
      else if p \<in> {''apps/nanos/'' @ fw1, ''apps/nanos/'' @ fw2,
                    ''apps/nanox/'' @ fw1, ''apps/nanox/'' @ fw2} then Inr [''bitcoin'']
      else if p \<in> {''apps/nanos/'' @ fw1 @ ''/bitcoin'', ''apps/nanos/'' @ fw2 @ ''/bitcoin'',
                    ''apps/nanox/'' @ fw1 @ ''/bitcoin'', ''apps/nanox/'' @ fw2 @ ''/bitcoin''}
      then Inr [''app_1.2.0.elf'', ''app_1.3.1.elf'']
      else Inl (ReaddirFailed p))"

text \<open>
  What holds of the table in every state the calls can reach: the closure stored in a
  record has captured the key the record is stored under, and every key was made from a
  counter value that is already used.
\<close>

definition registry_inv :: "'h registry \<Rightarrow> bool" where
  "registry_inv st =
     (\<forall>(k, obj) \<in> set (data st).
        inst_destroy obj = k \<and>
        (\<exists>m \<in> {1..idCounter st}. k = ''speculosID-'' @ string_of_nat m))"

text \<open>A launch request used in the examples.\<close>

definition exampleSpec :: deviceSpec where
  "exampleSpec = \<lparr>spec_model = ''nanoS'', spec_firmware = ''1.6.0'', spec_appName = ''Bitcoin'',
     spec_appVersion = ''1.3.1'', spec_dependency = None, spec_seed = ''abandon'',
     spec_coinapps = ''/coin-apps''\<rparr>"

text \<open>A numeric identifier that the constructor accepts as major, minor or patch.\<close>

definition main_identifier :: "string \<Rightarrow> bool" where
  "main_identifier s = (numeric_identifier s \<and> nat_of_digits s \<le> MAX_SAFE_INTEGER)"

text \<open>The raw strings that \<open>hackBadSemver\<close> is made for: three numeric identifiers, then
  nothing, or one pre-release identifier, or several components of letters, digits and
  hyphens.\<close>

definition repairable :: "string \<Rightarrow> bool" where
  "repairable raw =
     (length raw \<le> MAX_LENGTH \<and>
      (case split CHR ''.'' raw of
         a # b # c # rest \<Rightarrow>
           main_identifier a \<and> main_identifier b \<and> main_identifier c \<and>
           (case rest of
              [] \<Rightarrow> True
            | [r] \<Rightarrow> prerelease_identifier r
            | _ \<Rightarrow> list_all (list_all (\<lambda>c. is_digit c \<or> is_letter_or_dash c)) rest)
       | _ \<Rightarrow> False))"

text \<open>A candidate used in the examples.\<close>

definition exampleCandidate :: "string \<Rightarrow> string \<Rightarrow> appCandidate" where
  "exampleCandidate fw v =
     \<lparr>path = ''apps/nanos/'' @ fw @ ''/bitcoin/app_'' @ v @ ''.elf'', model = Some (Own ''nanoS''),
      firmware = fw, appName = ''bitcoin'', appVersion = v\<rparr>"

text \<open>A launch request with a dependency.\<close>

definition dependencySpec :: "string \<Rightarrow> deviceSpec" where
  "dependencySpec d = \<lparr>spec_model = ''nanoS'', spec_firmware = ''1.6.0'', spec_appName = ''Ethereum'',
     spec_appVersion = ''1.5.0'', spec_dependency = Some d, spec_seed = ''abandon'',
     spec_coinapps = ''/coin-apps''\<rparr>"

text \<open>An identifier that is compared as it is: a number, or a string that is not made of
  digits only (a string of digits is one of \<open>2^53 - 1\<close> or more, and is rounded to a
  double before it is compared).\<close>

fun plain_ident :: "ident \<Rightarrow> bool" where
  "plain_ident (Num n) = True"
| "plain_ident (Str s) = (\<not> (s \<noteq> [] \<and> list_all is_digit s))"

text \<open>A string that has, when it is a version, no numeric pre-release identifier of
  \<open>2^53 - 1\<close> or more.\<close>

definition small_identifiers :: "string \<Rightarrow> bool" where
  "small_identifiers s =
     (case SemVer s of Inl _ \<Rightarrow> True | Inr v \<Rightarrow> list_all plain_ident (prerelease v))"

text \<open>Keys in a linear order that the comparison of the package follows on such
  identifiers: a number is below every string, numbers go by value, strings by code
  units.\<close>

fun ident_key :: "ident \<Rightarrow> nat \<times> nat \<times> nat list" where
  "ident_key (Num n) = (0, n, [])"
| "ident_key (Str s) = (1, 0, map of_char s)"

text \<open>The key of a version: the three numbers, then whether it is a release (a release is
  above its pre-releases), then the pre-release identifiers.\<close>

definition version_key :: "semver \<Rightarrow> nat \<times> nat \<times> nat \<times> nat \<times> (nat \<times> nat \<times> nat list) list" where
  "version_key v =
     (major v, minor v, patch v, (if prerelease v = [] then 1 else 0),
      map ident_key (prerelease v))"

text \<open>\<^verbatim>\<open>semver.compare(a, b) >= 0\<close>, false when the comparison throws.\<close>

definition version_gte :: "string \<Rightarrow> string \<Rightarrow> bool" where
  "version_gte a b = (case semver_compare a b of Inl _ \<Rightarrow> False | Inr k \<Rightarrow> 0 \<le> k)"

text \<open>\<^verbatim>\<open>semver.compare(a, b) <= 0\<close>, false when the comparison throws.\<close>

definition version_le :: "string \<Rightarrow> string \<Rightarrow> bool" where
  "version_le a b = (case semver_compare a b of Inl _ \<Rightarrow> False | Inr k \<Rightarrow> k \<le> 0)"

text \<open>The priority of a candidate's model in the table (the table is keyed by the model in
  lower case).\<close>

definition model_priority :: "appCandidate \<Rightarrow> nat" where
  "model_priority c =
     (case model c of
        Some (Own m) \<Rightarrow>
          (case modelMapPriority (toLowerCase m) of Some (Own priority) \<Rightarrow> priority | _ \<Rightarrow> 0)
      | _ \<Rightarrow> 0)"

text \<open>A firmware name is at least another one when their normalised versions compare so.\<close>

definition firmware_gte :: "string \<Rightarrow> string \<Rightarrow> bool" where
  "firmware_gte a b = version_gte (hackBadSemver a) (hackBadSemver b)"

text \<open>What the order of the scan says of a candidate \<open>a\<close> that comes before a candidate \<open>b\<close>:
  the model of \<open>a\<close> has at least the priority of the model of \<open>b\<close>; within one model the
  firmware of \<open>a\<close> is the firmware of \<open>b\<close> or is at least as late; within one model,
  firmware and application the version of \<open>a\<close> is at least as late.\<close>

definition precedes :: "appCandidate \<Rightarrow> appCandidate \<Rightarrow> bool" where
  "precedes a b =
     (model_priority b \<le> model_priority a \<and>
      (model a = model b \<longrightarrow> firmware a = firmware b \<or> firmware_gte (firmware a) (firmware b)) \<and>
      (model a = model b \<and> firmware a = firmware b \<and> appName a = appName b \<longrightarrow>
         version_gte (appVersion a) (appVersion b)))"

text \<open>
  The trees that the order of the scan is stated for. The names in a directory are
  pairwise different, as a file system lists them, and none of them carries a numeric
  pre-release identifier of \<open>2^53 - 1\<close> or more, neither as a firmware name nor as the
  version of a file. Under the root no two model directories differ by letter case
  only, and no directory is named, in any letter case, by a key of the prototype.
\<close>

definition ordinary_tree :: "readdir \<Rightarrow> string \<Rightarrow> bool" where
  "ordinary_tree readdir cwd =
     ((\<forall>p names. readdir p = Inr names \<longrightarrow>
         distinct names \<and>
         (\<forall>n \<in> set names.
            small_identifiers (hackBadSemver n) \<and>
            (startsWith n ''app_'' \<and> endsWith n ''.elf'' \<longrightarrow>
               small_identifiers (slice 4 (length n - 4) n)))) \<and>
      (\<forall>names. readdir cwd = Inr names \<longrightarrow>
         distinct (map (\<lambda>e. toLowerCase (fst e)) (model_entries names)) \<and>
         (\<forall>n \<in> set names. toLowerCase n \<notin> set object_prototype_keys)))"

text \<open>A tree given by the listing of each of its directories.\<close>

definition tree :: "(string \<times> string list) list \<Rightarrow> readdir" where
  "tree listing p = (case map_of listing p of None \<Rightarrow> Inl (ReaddirFailed p) | Some names \<Rightarrow> Inr names)"

text \<open>Two directories for the same model, \<open>nanos\<close> with the firmware 1.6.0 and \<open>NANOS\<close>
  with the firmware 2.0.0.\<close>

definition caseTree :: readdir where
  "caseTree = tree
     [(''apps'', [''nanos'', ''NANOS'']),
      (''apps/nanos'', [''1.6.0'']),
      (''apps/NANOS'', [''2.0.0'']),
      (''apps/nanos/1.6.0'', [''bitcoin'']),
      (''apps/NANOS/2.0.0'', [''bitcoin'']),
      (''apps/nanos/1.6.0/bitcoin'', [''app_1.2.0.elf'']),
      (''apps/NANOS/2.0.0/bitcoin'', [''app_1.2.0.elf''])]"

text \<open>An empty directory \<open>constructor\<close> listed between the models \<open>blue\<close> and \<open>nanos\<close>.\<close>

definition prototypeTree :: readdir where
  "prototypeTree = tree
     [(''apps'', [''blue'', ''constructor'', ''nanos'']),
      (''apps/blue'', [''1.6.0'']),
      (''apps/constructor'', []),
      (''apps/nanos'', [''1.6.0'']),
      (''apps/blue/1.6.0'', [''bitcoin'']),
      (''apps/nanos/1.6.0'', [''bitcoin'']),
      (''apps/blue/1.6.0/bitcoin'', [''app_1.2.0.elf'']),
      (''apps/nanos/1.6.0/bitcoin'', [''app_1.2.0.elf''])]"

text \<open>Three files whose versions differ in pre-release identifiers above \<open>2^53\<close>: the
  first identifiers of all three are rounded to the same double.\<close>

definition roundingTree :: readdir where
  "roundingTree = tree
     [(''apps'', [''nanos'']),
      (''apps/nanos'', [''1.6.0'']),
      (''apps/nanos/1.6.0'', [''bitcoin'']),
      (''apps/nanos/1.6.0/bitcoin'',
         [''app_1.0.0-9007199254740993.9.elf'', ''app_1.0.0-9007199254740992.5.elf'',
          ''app_1.0.0-9007199254740993.1.elf''])]"

text \<open>What the scan returns on the three trees above.\<close>

definition caseCandidates :: "appCandidate list" where
  "caseCandidates =
     [\<lparr>path = ''apps/nanos/1.6.0/bitcoin/app_1.2.0.elf'', model = Some (Own ''nanoS''),
        firmware = ''1.6.0'', appName = ''bitcoin'', appVersion = ''1.2.0''\<rparr>,
      \<lparr>path = ''apps/NANOS/2.0.0/bitcoin/app_1.2.0.elf'', model = Some (Own ''nanoS''),
        firmware = ''2.0.0'', appName = ''bitcoin'', appVersion = ''1.2.0''\<rparr>]"

definition prototypeCandidates :: "appCandidate list" where
  "prototypeCandidates =
     [\<lparr>path = ''apps/blue/1.6.0/bitcoin/app_1.2.0.elf'', model = Some (Own ''blue''),
        firmware = ''1.6.0'', appName = ''bitcoin'', appVersion = ''1.2.0''\<rparr>,
      \<lparr>path = ''apps/nanos/1.6.0/bitcoin/app_1.2.0.elf'', model = Some (Own ''nanoS''),
        firmware = ''1.6.0'', appName = ''bitcoin'', appVersion = ''1.2.0''\<rparr>]"

definition roundingCandidates :: "appCandidate list" where
  "roundingCandidates =
     [exampleCandidate ''1.6.0'' ''1.0.0-9007199254740993.1'',
      exampleCandidate ''1.6.0'' ''1.0.0-9007199254740992.5'',
      exampleCandidate ''1.6.0'' ''1.0.0-9007199254740993.9'']"







text \<open>What the scan returns on the tree of the example with firmwares 1.6.0 and 2.0.0.\<close>

definition fixtureCandidates :: "appCandidate list" where
  "fixtureCandidates =
     [\<lparr>path = ''apps/nanos/2.0.0/bitcoin/app_1.3.1.elf'', model = Some (Own ''nanoS''), firmware = ''2.0.0'',
        appName = ''bitcoin'', appVersion = ''1.3.1''\<rparr>,
      \<lparr>path = ''apps/nanos/2.0.0/bitcoin/app_1.2.0.elf'', model = Some (Own ''nanoS''), firmware = ''2.0.0'',
        appName = ''bitcoin'', appVersion = ''1.2.0''\<rparr>,
      \<lparr>path = ''apps/nanos/1.6.0/bitcoin/app_1.3.1.elf'', model = Some (Own ''nanoS''), firmware = ''1.6.0'',
        appName = ''bitcoin'', appVersion = ''1.3.1''\<rparr>,
      \<lparr>path = ''apps/nanos/1.6.0/bitcoin/app_1.2.0.elf'', model = Some (Own ''nanoS''), firmware = ''1.6.0'',
        appName = ''bitcoin'', appVersion = ''1.2.0''\<rparr>,
      \<lparr>path = ''apps/nanox/2.0.0/bitcoin/app_1.3.1.elf'', model = Some (Own ''nanoX''), firmware = ''2.0.0'',
        appName = ''bitcoin'', appVersion = ''1.3.1''\<rparr>,
      \<lparr>path = ''apps/nanox/2.0.0/bitcoin/app_1.2.0.elf'', model = Some (Own ''nanoX''), firmware = ''2.0.0'',
        appName = ''bitcoin'', appVersion = ''1.2.0''\<rparr>,
      \<lparr>path = ''apps/nanox/1.6.0/bitcoin/app_1.3.1.elf'', model = Some (Own ''nanoX''), firmware = ''1.6.0'',
        appName = ''bitcoin'', appVersion = ''1.3.1''\<rparr>,
      \<lparr>path = ''apps/nanox/1.6.0/bitcoin/app_1.2.0.elf'', model = Some (Own ''nanoX''), firmware = ''1.6.0'',
        appName = ''bitcoin'', appVersion = ''1.2.0''\<rparr>]"

section \<open>Properties\<close>

subsection \<open>The tables, paths and numbers on examples\<close>

lemma path_join_examples:
  "path_join ''apps'' ''nanos'' = ''apps/nanos''"
  "path_join [] ''nanos'' = ''nanos''"
  "path_join ''apps/'' ''nanos'' = ''apps/nanos''"
  "path_join ''./apps'' ''nanos'' = ''apps/nanos''"
  "path_join ''/'' ''nanos'' = ''/nanos''"
  "path_join ''a/../..'' ''nanos'' = ''../nanos''"
  "path_join [] [] = ''.''"
  by (simp_all add: path_join_def path_normalize_def)

lemma lookup_examples:
  "modelMap ''nanos'' = Some (Own ''nanoS'')"
  "modelMap ''constructor'' = Some (Inherited ''constructor'')"
  "modelMapPriority ''__proto__'' = Some (Inherited ''__proto__'')"
  "modelMapPriority ''tostring'' = None"
  "model_entries [''blue'', ''Constructor'', ''README'', ''NanoS''] =
     [(''blue'', Own 1), (''Constructor'', Inherited ''constructor''), (''NanoS'', Own 3)]"
  by (simp_all add: modelMap_def modelMapPriority_def lookup_property_def
      object_prototype_keys_def toLowerCase_def lower_char_def)

lemma eatDevice_examples:
  "eatDevice [''nanoS@1.6.0'', ''bitcoin''] = ((Some (Own ''nanoS''), Some ''1.6.0''), [''bitcoin''])"
  "eatDevice [''constructor'', ''bitcoin''] = ((Some (Inherited ''constructor''), None), [''bitcoin''])"
  "eatDevice [''bitcoin''] = ((None, None), [''bitcoin''])"
  by (simp_all add: eatDevice_def nth_opt_def modelMap_def lookup_property_def
      object_prototype_keys_def toLowerCase_def lower_char_def)

lemma to_double_examples:
  "to_double 9007199254740991 = 9007199254740991"
  "to_double 9007199254740993 = 9007199254740992"
  "to_double 9007199254740995 = 9007199254740996"
  "to_double 18014398509481985 = 18014398509481984"
  by (simp_all add: to_double_def bit_length.simps Let_def)

lemma compareIdentifiers_examples:
  "compareIdentifiers (Num 9) (Num 10) = - 1"
  "compareIdentifiers (Num 9) (Str ''rc'') = - 1"
  "compareIdentifiers (Str ''rc'') (Str ''beta'') = 1"
  "compareIdentifiers (Str ''9007199254740993'') (Str ''9007199254740992'') = 0"
  "compareIdentifiers (Str ''9007199254740991'') (Str ''9007199254740992'') = - 1"
  by (simp_all add: compareIdentifiers_def is_digit_def to_double_def bit_length.simps Let_def
      nat_of_digits_def digit_value_def)

subsection \<open>Version normalisation\<close>

lemma filter_Boolean_Some: "filter_Boolean (map Some xs) = filter (\<lambda>s. s \<noteq> []) xs"
  by (induction xs) auto

text \<open>
  C7. \<open>hackBadSemver\<close> splits its input on the dot. With more than three components the
  first two stay as they are and the third is joined by hyphens with all that follow
  into one field; with three or fewer the components are kept. In both cases empty
  fields are dropped before the fields are joined by dots again. In particular
  \<open>1.6.1.9\<close> becomes \<open>1.6.1-9\<close> and \<open>1.6.0\<close> stays \<open>1.6.0\<close>.
\<close>

theorem hackBadSemver_components:
  "hackBadSemver str =
     (case split CHR ''.'' str of
        x # y # z # r # rest \<Rightarrow>
          join ''.'' (filter (\<lambda>s. s \<noteq> []) [x, y, z @ ''-'' @ join ''-'' (r # rest)])
      | parts \<Rightarrow> join ''.'' (filter (\<lambda>s. s \<noteq> []) parts))
   \<and> hackBadSemver ''1.6.1.9'' = ''1.6.1-9''
   \<and> hackBadSemver ''1.6.0'' = ''1.6.0''"
proof -
  have general: "hackBadSemver str =
     (case split CHR ''.'' str of
        x # y # z # r # rest \<Rightarrow>
          join ''.'' (filter (\<lambda>s. s \<noteq> []) [x, y, z @ ''-'' @ join ''-'' (r # rest)])
      | parts \<Rightarrow> join ''.'' (filter (\<lambda>s. s \<noteq> []) parts))"
    by (simp add: hackBadSemver_def nth_opt_def Let_def split: list.splits)
  have four: "hackBadSemver ''1.6.1.9'' = ''1.6.1-9''"
    by (simp add: hackBadSemver_def nth_opt_def)
  have three: "hackBadSemver ''1.6.0'' = ''1.6.0''"
    by (simp add: hackBadSemver_def nth_opt_def)
  from general four three show ?thesis by blast
qed

subsection \<open>Port allocation\<close>

text \<open>
  C4, as amended. The ports allocated from two counters \<open>n1\<close> and \<open>n2\<close> share no port
  exactly when the counters differ and their difference is none of 1000, 2000 and 3000
  (so, in particular, whenever both counters are below 1000 and differ); the four ports
  of a single allocation are pairwise distinct.
\<close>

theorem ports_disjoint_iff:
  "(set (ports n1) \<inter> set (ports n2) = {}) =
     (n1 \<noteq> n2 \<and> (if n1 < n2 then n2 - n1 else n1 - n2) \<notin> {1000, 2000, 3000})
   \<and> distinct (ports n1)"
  unfolding ports_def apduPort_def vncPort_def buttonPort_def automationPort_def
  by (cases "n1 < n2") auto

theorem ports_disjoint_iff_witness:
  "set (ports 1) \<inter> set (ports 2) = {} \<and> distinct (ports 1)"
  using ports_disjoint_iff [of 1 2] by simp

text \<open>The claim as stated fails once the counter passes 1000: instance 1001 is given, as
  its APDU port, the VNC port of instance 1.\<close>

theorem ports_shared_counterexample:
  "(1001::nat) \<noteq> 1 \<and> apduPort 1001 \<in> set (ports 1001) \<and> apduPort 1001 \<in> set (ports 1)"
  by (simp add: ports_def apduPort_def vncPort_def buttonPort_def automationPort_def)

subsection \<open>Query parsing\<close>

text \<open>
  C1. For the query \<open>speculos:nanoS:bitcoin@1.3.x\<close>, with \<open>bitcoin\<close> not a currency
  keyword, the parser returns the model \<open>nanoS\<close>, the application name \<open>bitcoin\<close> and no
  dependency, but the range \<open>1.3.x\<close> is stored under \<open>version\<close> and the field
  \<open>appVersion\<close> of the search stays absent: a candidate of version \<open>1.2.0\<close> matches the
  search whatever the range test answers.
\<close>

theorem parseAppSearch_version_field:
  assumes "findCryptoCurrencyByKeyword ''bitcoin'' = None"
  shows "parseAppSearch findCryptoCurrencyByKeyword getDependencies ''speculos:nanoS:bitcoin@1.3.x'' =
           Some \<lparr>search = \<lparr>search_model = Some (Own ''nanoS''), search_firmware = None,
                            search_appName = Some ''bitcoin'', search_appVersion = None,
                            search_version = Some ''1.3.x''\<rparr>,
                  parsed_appName = ''bitcoin'', dependency = None\<rparr>
         \<and> appCandidatesMatches satisfies
             \<lparr>path = ''/apps/nanos/1.6.0/bitcoin/app_1.2.0.elf'', model = Some (Own ''nanoS''),
              firmware = ''1.6.0'', appName = ''bitcoin'', appVersion = ''1.2.0''\<rparr>
             \<lparr>search_model = Some (Own ''nanoS''), search_firmware = None,
              search_appName = Some ''bitcoin'', search_appVersion = None,
              search_version = Some ''1.3.x''\<rparr>"
  using assms
  by (simp add: parseAppSearch_def eatDevice_def nth_opt_def modelMap_def lookup_property_def
      toLowerCase_def lower_char_def appCandidatesMatches_def Let_def)

theorem parseAppSearch_version_field_witness:
  "search_appVersion (search (the (parseAppSearch (\<lambda>_. None) (\<lambda>_. []) ''speculos:nanoS:bitcoin@1.3.x''))) = None
   \<and> search_version (search (the (parseAppSearch (\<lambda>_. None) (\<lambda>_. []) ''speculos:nanoS:bitcoin@1.3.x''))) = Some ''1.3.x''"
  using parseAppSearch_version_field [of "\<lambda>_. None" "\<lambda>_. []"] by simp

subsection \<open>The instance registry\<close>

lemma string_of_nat_small: "n < 10 \<Longrightarrow> string_of_nat n = [digit_char n]"
  by (simp add: string_of_nat.simps)

lemma string_of_nat_large:
  "\<not> n < 10 \<Longrightarrow> string_of_nat n = string_of_nat (n div 10) @ [digit_char (n mod 10)]"
  by (subst string_of_nat.simps) simp

lemma string_of_nat_not_Nil: "string_of_nat n \<noteq> []"
  by (cases "n < 10") (simp_all add: string_of_nat_small string_of_nat_large)

lemma digit_char_inj: "d < 10 \<Longrightarrow> e < 10 \<Longrightarrow> digit_char d = digit_char e \<Longrightarrow> d = e"
proof -
  assume a: "d < 10" "e < 10" "digit_char d = digit_char e"
  have "distinct ''0123456789''" by simp
  moreover have "length ''0123456789'' = 10" by simp
  ultimately show "d = e"
    using a unfolding digit_char_def by (metis nth_eq_iff_index_eq)
qed

lemma string_of_nat_inj: "string_of_nat m = string_of_nat n \<Longrightarrow> m = n"
proof (induction m arbitrary: n rule: string_of_nat.induct)
  case (1 m)
  show ?case
  proof (cases "m < 10")
    case True
    then have sm: "string_of_nat m = [digit_char m]" by (rule string_of_nat_small)
    show ?thesis
    proof (cases "n < 10")
      case True
      with sm "1.prems" \<open>m < 10\<close> show ?thesis
        by (simp add: string_of_nat_small digit_char_inj)
    next
      case False
      then have "string_of_nat n = string_of_nat (n div 10) @ [digit_char (n mod 10)]"
        by (rule string_of_nat_large)
      with sm "1.prems" have "string_of_nat (n div 10) = []" by simp
      then show ?thesis by (simp add: string_of_nat_not_Nil)
    qed
  next
    case False
    then have lm: "string_of_nat m = string_of_nat (m div 10) @ [digit_char (m mod 10)]"
      by (rule string_of_nat_large)
    show ?thesis
    proof (cases "n < 10")
      case True
      then have "string_of_nat n = [digit_char n]" by (rule string_of_nat_small)
      with lm "1.prems" have "string_of_nat (m div 10) = []" by simp
      then show ?thesis by (simp add: string_of_nat_not_Nil)
    next
      case nl: False
      then have "string_of_nat n = string_of_nat (n div 10) @ [digit_char (n mod 10)]"
        by (rule string_of_nat_large)
      with lm "1.prems" have pre: "string_of_nat (m div 10) = string_of_nat (n div 10)"
        and dg: "digit_char (m mod 10) = digit_char (n mod 10)" by simp_all
      from "1.IH" [OF False pre] have q: "m div 10 = n div 10" .
      from dg have r: "m mod 10 = n mod 10" by (intro digit_char_inj) simp_all
      from q r show ?thesis by (metis div_mult_mod_eq)
    qed
  qed
qed

lemma execs_append: "execs (xs @ ys) = execs xs @ execs ys"
  by (induction xs rule: execs.induct) simp_all

lemma map_of_inv:
  "registry_inv st \<Longrightarrow> map_of (data st) k = Some obj \<Longrightarrow> inst_destroy obj = k"
  unfolding registry_inv_def by (auto dest: map_of_SomeD)

lemma set_delete_subset: "set (AList.delete k al) \<subseteq> set al"
  by (induction al) auto

lemma data_destroy:
  "data (fst (destroy docker i st)) = AList.delete i (data st)"
  by (auto simp: destroy_def emit_def Let_def map_of_eq_None_iff split: option.splits)

lemma idCounter_destroy: "idCounter (fst (destroy docker i st)) = idCounter st"
  by (auto simp: destroy_def emit_def Let_def split: option.splits)

lemma inv_delete:
  "registry_inv st \<Longrightarrow> data st' = AList.delete i (data st) \<Longrightarrow> idCounter st' = idCounter st
     \<Longrightarrow> registry_inv st'"
  unfolding registry_inv_def using set_delete_subset [of i "data st"] by auto

lemma inv_destroy: "registry_inv st \<Longrightarrow> registry_inv (fst (destroy docker i st))"
  by (rule inv_delete) (simp_all add: data_destroy idCounter_destroy)

lemma data_release:
  "registry_inv st \<Longrightarrow> data (releaseSpeculosDevice docker i st) = AList.delete i (data st)"
  by (auto simp: releaseSpeculosDevice_def Let_def emit_def data_destroy registry_inv_def
      map_of_eq_None_iff dest!: map_of_SomeD split: option.splits)

lemma idCounter_release: "idCounter (releaseSpeculosDevice docker i st) = idCounter st"
  by (auto simp: releaseSpeculosDevice_def Let_def emit_def idCounter_destroy split: option.splits)

lemma inv_release: "registry_inv st \<Longrightarrow> registry_inv (releaseSpeculosDevice docker i st)"
  by (rule inv_delete) (simp_all add: data_release idCounter_release)

lemma data_disconnect:
  "registry_inv st \<Longrightarrow> data (disconnect docker i st) = AList.delete i (data st)"
  by (auto simp: disconnect_def data_destroy registry_inv_def
      map_of_eq_None_iff dest!: map_of_SomeD split: option.splits)

lemma idCounter_disconnect: "idCounter (disconnect docker i st) = idCounter st"
  by (auto simp: disconnect_def idCounter_destroy split: option.splits)

lemma inv_disconnect: "registry_inv st \<Longrightarrow> registry_inv (disconnect docker i st)"
  by (rule inv_delete) (simp_all add: data_disconnect idCounter_disconnect)

lemma fold_release:
  "registry_inv st \<Longrightarrow>
     registry_inv (fold (releaseSpeculosDevice docker) ks st) \<and>
     idCounter (fold (releaseSpeculosDevice docker) ks st) = idCounter st \<and>
     data (fold (releaseSpeculosDevice docker) ks st) = filter (\<lambda>(k, _). k \<notin> set ks) (data st)"
proof (induction ks arbitrary: st)
  case Nil
  then show ?case by simp
next
  case (Cons k ks)
  let ?st = "releaseSpeculosDevice docker k st"
  have i: "registry_inv ?st" using Cons.prems by (rule inv_release)
  have d: "data ?st = AList.delete k (data st)" using Cons.prems by (rule data_release)
  have "filter (\<lambda>(k', _). k' \<notin> set ks) (AList.delete k al) =
        filter (\<lambda>(k', _). k' \<notin> set (k # ks)) al" for al :: "(string \<times> 'a deviceInstance) list"
    by (induction al) auto
  with Cons.IH [OF i] d show ?case by (simp add: idCounter_release)
qed

lemma data_closeAll:
  "registry_inv st \<Longrightarrow> data (closeAllSpeculosDevices docker st) = []"
proof -
  assume "registry_inv st"
  then have "data (closeAllSpeculosDevices docker st) =
      filter (\<lambda>(k, _). k \<notin> set (map fst (data st))) (data st)"
    unfolding closeAllSpeculosDevices_def using fold_release by blast
  also have "\<dots> = []" by (force simp: filter_empty_conv)
  finally show ?thesis .
qed

lemma inv_closeAll: "registry_inv st \<Longrightarrow> registry_inv (closeAllSpeculosDevices docker st)"
  unfolding closeAllSpeculosDevices_def using fold_release by blast

lemma idCounter_closeAll:
  "registry_inv st \<Longrightarrow> idCounter (closeAllSpeculosDevices docker st) = idCounter st"
  unfolding closeAllSpeculosDevices_def using fold_release by blast

lemma idCounter_create:
  "idCounter (fst (createSpeculosDevice docker spec rd opened st)) = idCounter st + 1"
  by (auto simp: createSpeculosDevice_def Let_def emit_def idCounter_destroy
      split: readiness.splits sum.splits)

lemma data_create:
  "data (fst (createSpeculosDevice docker spec rd opened st)) =
     (let ident = ''speculosID-'' @ string_of_nat (idCounter st + 1) in
      case rd of
        Silent \<Rightarrow> data st
      | Closed \<Rightarrow> AList.delete ident (data st)
      | Marker \<Rightarrow>
          (case opened of
             Inl e \<Rightarrow> data st
           | Inr t \<Rightarrow> AList.update ident
               \<lparr>process = ident, inst_apduPort = apduPort (idCounter st + 1),
                inst_buttonPort = buttonPort (idCounter st + 1),
                inst_automationPort = automationPort (idCounter st + 1),
                transport = t, inst_destroy = ident\<rparr> (data st)))"
  by (auto simp: createSpeculosDevice_def Let_def emit_def data_destroy
      split: readiness.splits sum.splits)

lemma set_update_subset: "set (AList.update k v al) \<subseteq> insert (k, v) (set al)"
  by (induction al) auto

lemma inv_create:
  assumes "registry_inv st"
  shows "registry_inv (fst (createSpeculosDevice docker spec rd opened st))"
proof -
  let ?st = "fst (createSpeculosDevice docker spec rd opened st)"
  let ?id = "''speculosID-'' @ string_of_nat (idCounter st + 1)"
  have old: "inst_destroy obj = k \<and> (\<exists>m \<in> {1..idCounter st + 1}. k = ''speculosID-'' @ string_of_nat m)"
    if "(k, obj) \<in> set (data st)" for k obj
    using assms that unfolding registry_inv_def by fastforce
  have "inst_destroy obj = k \<and> (\<exists>m \<in> {1..idCounter ?st}. k = ''speculosID-'' @ string_of_nat m)"
    if mem: "(k, obj) \<in> set (data ?st)" for k obj
  proof (cases "(k, obj) \<in> set (data st)")
    case True
    then show ?thesis using old by (simp add: idCounter_create)
  next
    case False
    with mem obtain t where "rd = Marker" "opened = Inr t"
      and "(k, obj) \<in> set (AList.update ?id
               \<lparr>process = ?id, inst_apduPort = apduPort (idCounter st + 1),
                inst_buttonPort = buttonPort (idCounter st + 1),
                inst_automationPort = automationPort (idCounter st + 1),
                transport = t, inst_destroy = ?id\<rparr> (data st))"
      using set_delete_subset [of ?id "data st"]
      by (auto simp: data_create Let_def split: readiness.splits sum.splits)
    with False have "k = ?id" "inst_destroy obj = ?id"
      using set_update_subset by fastforce+
    then show ?thesis by (auto simp: idCounter_create)
  qed
  then show ?thesis unfolding registry_inv_def by blast
qed

lemma map_of_create_other:
  "k \<noteq> ''speculosID-'' @ string_of_nat (idCounter st + 1) \<Longrightarrow>
     map_of (data (fst (createSpeculosDevice docker spec rd opened st))) k = map_of (data st) k"
  by (auto simp: data_create Let_def update_conv' delete_conv' split: readiness.splits sum.splits)

lemma create_Resolved:
  assumes "createSpeculosDevice docker spec rd opened st = (st1, Resolved (ident, t))"
  shows "ident = ''speculosID-'' @ string_of_nat (idCounter st + 1)"
    and "\<exists>obj. map_of (data st1) ident = Some obj \<and> transport obj = t"
    and "idCounter st1 = idCounter st + 1"
  using assms
  by (auto simp: createSpeculosDevice_def Let_def emit_def update_conv'
      split: readiness.splits sum.splits prod.splits option.splits)

lemma step_effect:
  assumes "registry_inv st" and "m \<le> idCounter st" and "k = ''speculosID-'' @ string_of_nat m"
  shows "map_of (data (step c st)) k = (if removes k c then None else map_of (data st) k)
         \<and> registry_inv (step c st) \<and> idCounter st \<le> idCounter (step c st)"
proof (cases c)
  case (Create docker spec rd opened)
  have "m \<noteq> idCounter st + 1" using assms(2) by simp
  then have "k \<noteq> ''speculosID-'' @ string_of_nat (idCounter st + 1)"
    using assms(3) by (auto dest: string_of_nat_inj)
  then show ?thesis using Create assms(1)
    by (simp add: map_of_create_other inv_create idCounter_create)
next
  case (Release docker i)
  then show ?thesis using assms(1)
    by (simp add: data_release delete_conv' inv_release idCounter_release)
next
  case (CloseAll docker)
  then show ?thesis using assms(1)
    by (simp add: data_closeAll inv_closeAll idCounter_closeAll)
next
  case (Disconnect docker i)
  then show ?thesis using assms(1)
    by (simp add: data_disconnect delete_conv' inv_disconnect idCounter_disconnect)
next
  case (ProcessClose docker i)
  then show ?thesis using assms(1)
    by (simp add: data_destroy delete_conv' inv_destroy idCounter_destroy)
next
  case (Open i)
  then show ?thesis using assms(1) by simp
qed

lemma fold_step_effect:
  "registry_inv st \<Longrightarrow> m \<le> idCounter st \<Longrightarrow> k = ''speculosID-'' @ string_of_nat m \<Longrightarrow>
     map_of (data (fold step cs st)) k =
       (if \<exists>c \<in> set cs. removes k c then None else map_of (data st) k)"
proof (induction cs arbitrary: st)
  case Nil
  then show ?case by simp
next
  case (Cons c cs)
  from step_effect [OF Cons.prems, of c]
  have e: "map_of (data (step c st)) k = (if removes k c then None else map_of (data st) k)"
    and i: "registry_inv (step c st)" and n: "m \<le> idCounter (step c st)"
    using Cons.prems(2) by auto
  from Cons.IH [OF i n Cons.prems(3)] e show ?case by simp
qed

lemma inv_initial: "registry_inv initial"
  by (simp add: registry_inv_def initial_def)

lemma inv_step: "registry_inv st \<Longrightarrow> registry_inv (step c st)"
  by (cases c) (simp_all add: inv_create inv_release inv_closeAll inv_disconnect inv_destroy)

lemma inv_fold_step: "registry_inv st \<Longrightarrow> registry_inv (fold step cs st)"
  by (induction cs arbitrary: st) (simp_all add: inv_step)

lemma startsWith_append: "startsWith (p @ s) p"
  by (simp add: startsWith_def)

text \<open>Releasing a registered instance twice through \<open>releaseSpeculosDevice\<close> requests one
  removal: the second call finds no entry and does not reach \<open>destroy\<close>.\<close>

lemma destroy_registered:
  assumes "map_of (data st) ident = Some obj"
  shows "map_of (data (fst (destroy d ident st))) ident = None"
    and "execs (trace (fst (destroy d ident st))) = execs (trace st) @ [''docker rm -f '' @ ident]"
proof -
  show "map_of (data (fst (destroy d ident st))) ident = None"
    by (simp add: data_destroy delete_conv')
  have "\<exists>msg. trace (fst (destroy d ident st)) =
      trace st @ [Delete ident, Exec (''docker rm -f '' @ ident), Log ''speculos'' msg]"
    using assms by (auto simp: destroy_def Let_def emit_def split: option.splits)
  then show "execs (trace (fst (destroy d ident st))) = execs (trace st) @ [''docker rm -f '' @ ident]"
    by (auto simp: execs_append)
qed

lemma release_twice:
  assumes "registry_inv st" and "map_of (data st) ident = Some obj"
  shows "execs (trace (releaseSpeculosDevice d2 ident (releaseSpeculosDevice d1 ident st))) =
           execs (trace st) @ [''docker rm -f '' @ ident]
         \<and> map_of (data (releaseSpeculosDevice d1 ident st)) ident = None"
proof -
  let ?st0 = "emit (Log ''speculos'' (''release '' @ ident)) st"
  have d0: "map_of (data ?st0) ident = Some obj" using assms(2) by (simp add: emit_def)
  have i: "inst_destroy obj = ident" using assms by (rule map_of_inv)
  have r1: "releaseSpeculosDevice d1 ident st = fst (destroy d1 ident ?st0)"
    using d0 i by (simp add: releaseSpeculosDevice_def Let_def)
  have e0: "execs (trace ?st0) = execs (trace st)" by (simp add: emit_def execs_append)
  let ?st1 = "fst (destroy d1 ident ?st0)"
  note g = destroy_registered(1) [OF d0, of d1] and e1 = destroy_registered(2) [OF d0, of d1]
  have "releaseSpeculosDevice d2 ident ?st1 = emit (Log ''speculos'' (''release '' @ ident)) ?st1"
    using g by (simp add: releaseSpeculosDevice_def Let_def emit_def)
  then have "execs (trace (releaseSpeculosDevice d2 ident ?st1)) = execs (trace ?st1)"
    by (simp add: emit_def execs_append)
  with e0 e1 g show ?thesis unfolding r1 by simp
qed

text \<open>
  C3. Destroying a registered instance twice: the first call removes the entry and then
  requests the removal of the container, and settles with the outcome of that command;
  the second call changes nothing and requests nothing, so one removal is requested in
  all. The promise of the second call is never settled.
\<close>

theorem destroy_twice:
  assumes "map_of (data st) ident = Some obj"
  shows "map_of (data (fst (destroy d1 ident st))) ident = None
       \<and> take 2 (drop (length (trace st)) (trace (fst (destroy d1 ident st)))) =
           [Delete ident, Exec (''docker rm -f '' @ ident)]
       \<and> snd (destroy d1 ident st) =
           (case d1 (''docker rm -f '' @ ident) of
              None \<Rightarrow> Resolved ()
            | Some (e, _) \<Rightarrow> Rejected (ExecFailed e))
       \<and> destroy d2 ident (fst (destroy d1 ident st)) = (fst (destroy d1 ident st), Pending)
       \<and> execs (trace (fst (destroy d2 ident (fst (destroy d1 ident st))))) =
           execs (trace st) @ [''docker rm -f '' @ ident]"
proof -
  have gone: "map_of (data (fst (destroy d1 ident st))) ident = None"
    by (simp add: data_destroy delete_conv')
  have tr: "\<exists>msg. trace (fst (destroy d1 ident st)) =
      trace st @ [Delete ident, Exec (''docker rm -f '' @ ident), Log ''speculos'' msg]"
    using assms by (auto simp: destroy_def Let_def emit_def split: option.splits)
  have out: "snd (destroy d1 ident st) =
           (case d1 (''docker rm -f '' @ ident) of
              None \<Rightarrow> Resolved ()
            | Some (e, _) \<Rightarrow> Rejected (ExecFailed e))"
    using assms by (auto simp: destroy_def Let_def emit_def split: option.splits)
  have again: "destroy d2 ident (fst (destroy d1 ident st)) = (fst (destroy d1 ident st), Pending)"
    using gone by (simp add: destroy_def)
  from tr have "take 2 (drop (length (trace st)) (trace (fst (destroy d1 ident st)))) =
           [Delete ident, Exec (''docker rm -f '' @ ident)]" by auto
  moreover from tr again have "execs (trace (fst (destroy d2 ident (fst (destroy d1 ident st))))) =
           execs (trace st) @ [''docker rm -f '' @ ident]"
    by (auto simp: execs_append)
  ultimately show ?thesis using gone out again by blast
qed

theorem destroy_twice_witness:
  "snd (destroy (\<lambda>_. None) ''speculosID-1''
      (fst (destroy (\<lambda>_. None) ''speculosID-1''
        (fst (createSpeculosDevice (\<lambda>_. None) exampleSpec Marker (Inr (7::nat)) initial))))) = Pending
   \<and> execs (trace (fst (destroy (\<lambda>_. None) ''speculosID-1''
      (fst (destroy (\<lambda>_. None) ''speculosID-1''
        (fst (createSpeculosDevice (\<lambda>_. None) exampleSpec Marker (Inr (7::nat)) initial))))))) =
       [''docker rm -f speculosID-1'']"
proof -
  let ?st = "fst (createSpeculosDevice (\<lambda>_. None) exampleSpec Marker (Inr (7::nat)) initial)"
  have reg: "map_of (data ?st) ''speculosID-1'' =
      Some \<lparr>process = ''speculosID-1'', inst_apduPort = apduPort 1, inst_buttonPort = buttonPort 1,
        inst_automationPort = automationPort 1, transport = 7, inst_destroy = ''speculosID-1''\<rparr>"
    by (simp add: data_create Let_def initial_def string_of_nat_small digit_char_def)
  have ex: "execs (trace ?st) = []"
    by (simp add: createSpeculosDevice_def Let_def initial_def emit_def)
  note dt = destroy_twice [OF reg, of "\<lambda>_. None" "\<lambda>_. None"]
  from dt have "snd (destroy (\<lambda>_. None) ''speculosID-1'' (fst (destroy (\<lambda>_. None) ''speculosID-1'' ?st))) = Pending"
    by simp
  moreover from dt ex
  have "execs (trace (fst (destroy (\<lambda>_. None) ''speculosID-1'' (fst (destroy (\<lambda>_. None) ''speculosID-1'' ?st))))) =
       [''docker rm -f speculosID-1'']"
    by (metis append_Cons append_Nil)
  ultimately show ?thesis by blast
qed

text \<open>
  C9, as amended. From the state in which \<open>createSpeculosDevice\<close> has resolved with an identifier and
  a transport, and after any further calls, the lookup by that identifier returns that
  transport as long as none of the calls removes the instance, and throws the error
  ``speculos transport was destroyed'' once one of them does. In any state, the lookup
  by an identifier that begins with \<open>speculosID\<close> and has no entry throws the same error.
\<close>

theorem transport_lookup:
  "(createSpeculosDevice docker spec rd opened (fold step before initial) = (st1, Resolved (ident, t)) \<longrightarrow>
      transport_open ident (fold step calls st1) =
        (if \<exists>c \<in> set calls. removes ident c
         then Threw (Error ''speculos transport was destroyed'')
         else Transport t))
   \<and> (startsWith i ''speculosID'' \<and> map_of (data st) i = None \<longrightarrow>
        transport_open i st = Threw (Error ''speculos transport was destroyed''))"
proof (intro conjI impI)
  let ?st0 = "fold step before initial"
  assume cr: "createSpeculosDevice docker spec rd opened ?st0 = (st1, Resolved (ident, t))"
  have i0: "registry_inv ?st0" by (rule inv_fold_step [OF inv_initial])
  from create_Resolved [OF cr] obtain obj where
    idn: "ident = ''speculosID-'' @ string_of_nat (idCounter ?st0 + 1)"
    and reg: "map_of (data st1) ident = Some obj" and tr: "transport obj = t"
    and cnt: "idCounter st1 = idCounter ?st0 + 1" by blast
  have "st1 = fst (createSpeculosDevice docker spec rd opened ?st0)" using cr by simp
  then have i1: "registry_inv st1" using inv_create [OF i0] by simp
  have "map_of (data (fold step calls st1)) ident =
          (if \<exists>c \<in> set calls. removes ident c then None else Some obj)"
    using fold_step_effect [OF i1 _ idn, of calls] cnt reg by simp
  moreover have "startsWith ident ''speculosID''"
    using idn by (simp add: startsWith_def)
  ultimately show "transport_open ident (fold step calls st1) =
        (if \<exists>c \<in> set calls. removes ident c
         then Threw (Error ''speculos transport was destroyed'')
         else Transport t)"
    using tr by (simp add: transport_open_def)
next
  assume "startsWith i ''speculosID'' \<and> map_of (data st) i = None"
  then show "transport_open i st = Threw (Error ''speculos transport was destroyed'')"
    by (simp add: transport_open_def)
qed

theorem transport_lookup_witness:
  "transport_open ''speculosID-1''
     (fold step [Open ''speculosID-1'', Create (\<lambda>_. None) exampleSpec Marker (Inr 8)]
        (fst (createSpeculosDevice (\<lambda>_. None) exampleSpec Marker (Inr (7::nat)) initial))) = Transport 7
   \<and> transport_open ''speculosID-1''
     (fold step [Release (\<lambda>_. None) ''speculosID-1'', Create (\<lambda>_. None) exampleSpec Marker (Inr 8)]
        (fst (createSpeculosDevice (\<lambda>_. None) exampleSpec Marker (Inr (7::nat)) initial))) =
       Threw (Error ''speculos transport was destroyed'')
   \<and> transport_open ''speculosID-9'' (initial :: nat registry) =
       Threw (Error ''speculos transport was destroyed'')"
proof -
  let ?c = "createSpeculosDevice (\<lambda>_. None) exampleSpec Marker (Inr (7::nat)) initial"
  have "snd ?c = Resolved (''speculosID-1'', 7)"
    by (simp add: createSpeculosDevice_def Let_def initial_def emit_def string_of_nat_small
        digit_char_def)
  then have cr: "createSpeculosDevice (\<lambda>_. None) exampleSpec Marker (Inr (7::nat)) (fold step [] initial) =
      (fst ?c, Resolved (''speculosID-1'', 7))"
    by (simp add: prod_eq_iff)
  have a: "transport_open ''speculosID-1''
     (fold step [Open ''speculosID-1'', Create (\<lambda>_. None) exampleSpec Marker (Inr 8)] (fst ?c)) = Transport 7"
    using transport_lookup [THEN conjunct1, rule_format, OF cr,
        where calls = "[Open ''speculosID-1'', Create (\<lambda>_. None) exampleSpec Marker (Inr 8)]"]
    by simp
  have b: "transport_open ''speculosID-1''
     (fold step [Release (\<lambda>_. None) ''speculosID-1'', Create (\<lambda>_. None) exampleSpec Marker (Inr 8)] (fst ?c)) =
       Threw (Error ''speculos transport was destroyed'')"
    using transport_lookup [THEN conjunct1, rule_format, OF cr,
        where calls = "[Release (\<lambda>_. None) ''speculosID-1'', Create (\<lambda>_. None) exampleSpec Marker (Inr 8)]"]
    by simp
  have c: "transport_open ''speculosID-9'' (initial :: nat registry) =
       Threw (Error ''speculos transport was destroyed'')"
    using transport_lookup [where i = "''speculosID-9''" and st = "initial :: nat registry",
        THEN conjunct2]
    by (simp add: startsWith_def initial_def)
  from a b c show ?thesis by blast
qed

text \<open>
  The claim as stated fails for an identifier that was never registered and does not
  begin with \<open>speculosID\<close>: the lookup returns nothing and throws no error.
\<close>

theorem transport_lookup_counterexample:
  "map_of (data (initial :: nat registry)) ''hid'' = None
   \<and> transport_open ''hid'' (initial :: nat registry) = Undefined"
  by (simp add: transport_open_def startsWith_def initial_def)

subsection \<open>Launch arguments\<close>

lemma dockerArgs_dependency:
  assumes "spec_dependency spec = Some d" and "d \<noteq> []"
  shows "dockerArgs ident n spec ! 18 =
           ''./apps/'' @ toLowerCase (spec_model spec) @ ''/'' @ spec_firmware spec @ ''/'' @
             spec_appName spec @ ''/app_'' @ spec_appVersion spec @ ''.elf''
         \<and> dockerArgs ident n spec ! 19 = ''-l''
         \<and> dockerArgs ident n spec ! 20 =
             d @ '':./apps/'' @ toLowerCase (spec_model spec) @ ''/'' @ spec_firmware spec @ ''/'' @
               d @ ''/app_'' @ spec_appVersion spec @ ''.elf''
         \<and> dockerArgs ident n spec ! 21 = ''--sdk''
         \<and> length (dockerArgs ident n spec) = 37"
  using assms by (simp add: dockerArgs_def nth_append)

lemma spawns_append: "spawns (xs @ ys) = spawns xs @ spawns ys"
  by (induction xs rule: spawns.induct) simp_all

lemma spawns_destroy: "spawns (trace (fst (destroy docker ident st))) = spawns (trace st)"
  by (auto simp: destroy_def Let_def emit_def spawns_append split: option.splits)

lemma spawns_create:
  "spawns (trace (fst (createSpeculosDevice docker spec rd opened st))) =
     spawns (trace st) @
       [(''docker'',
         dockerArgs (''speculosID-'' @ string_of_nat (idCounter st + 1)) (idCounter st + 1) spec)]"
  by (cases rd; cases opened)
    (simp_all add: createSpeculosDevice_def Let_def emit_def spawns_append spawns_destroy)

text \<open>
  C10, as amended. \<open>createSpeculosDevice\<close> starts one process, \<open>docker\<close>. When the spec
  names a dependency (a name that is not empty), the argument after the path of the
  primary application is \<open>-l\<close> and the one after it is
  \<open><dependency>:./apps/<model>/<firmware>/<dependency>/app_<appVersion>.elf\<close>, where
  \<open><model>\<close> is the model in lower case and \<open><appVersion>\<close> is the version of the
  primary application.
\<close>

theorem createSpeculosDevice_dependency:
  assumes "spec_dependency spec = Some d" and "d \<noteq> []"
  shows "\<exists>args.
           spawns (trace (fst (createSpeculosDevice docker spec rd opened st))) =
             spawns (trace st) @ [(''docker'', args)]
         \<and> length args = 37
         \<and> args ! 18 =
             ''./apps/'' @ toLowerCase (spec_model spec) @ ''/'' @ spec_firmware spec @ ''/'' @
               spec_appName spec @ ''/app_'' @ spec_appVersion spec @ ''.elf''
         \<and> args ! 19 = ''-l''
         \<and> args ! 20 =
             d @ '':./apps/'' @ toLowerCase (spec_model spec) @ ''/'' @ spec_firmware spec @ ''/'' @
               d @ ''/app_'' @ spec_appVersion spec @ ''.elf''
         \<and> args ! 21 = ''--sdk''"
  using spawns_create [of docker spec rd opened st] dockerArgs_dependency [OF assms]
  by blast

theorem createSpeculosDevice_dependency_witness:
  "\<exists>args.
     spawns (trace (fst (createSpeculosDevice (\<lambda>_. None) (dependencySpec ''Bitcoin'') Marker
                          (Inr (7::nat)) initial))) = [(''docker'', args)]
     \<and> args ! 19 = ''-l''
     \<and> args ! 20 = ''Bitcoin:./apps/nanos/1.6.0/Bitcoin/app_1.5.0.elf''"
  using createSpeculosDevice_dependency [of "dependencySpec ''Bitcoin''" "''Bitcoin''"
      "\<lambda>_. None" Marker "Inr (7::nat)" initial]
  by (auto simp: dependencySpec_def toLowerCase_def lower_char_def initial_def)

text \<open>
  The claim as stated fails for the model \<open>nanoS\<close>: the path in the argument has the
  directory \<open>nanos\<close>, not \<open>nanoS\<close>. It fails as well for a dependency that is the
  empty string: no argument \<open>-l\<close> is passed.
\<close>

theorem createSpeculosDevice_dependency_counterexample:
  "spec_model (dependencySpec ''Bitcoin'') = ''nanoS''
   \<and> snd (last (spawns (trace (fst (createSpeculosDevice (\<lambda>_. None) (dependencySpec ''Bitcoin'')
           Marker (Inr (7::nat)) initial))))) ! 20
       = ''Bitcoin:./apps/nanos/1.6.0/Bitcoin/app_1.5.0.elf''
   \<and> snd (last (spawns (trace (fst (createSpeculosDevice (\<lambda>_. None) (dependencySpec ''Bitcoin'')
           Marker (Inr (7::nat)) initial))))) ! 20
       \<noteq> ''Bitcoin:./apps/nanoS/1.6.0/Bitcoin/app_1.5.0.elf''
   \<and> spec_dependency (dependencySpec []) = Some []
   \<and> ''-l'' \<notin> set (snd (last (spawns (trace (fst (createSpeculosDevice (\<lambda>_. None)
           (dependencySpec []) Marker (Inr (7::nat)) initial))))))"
  by (simp add: spawns_create dependencySpec_def dockerArgs_def toLowerCase_def lower_char_def
      string_of_nat_not_Nil)

subsection \<open>Normalised versions and matching\<close>

lemma split_not_Nil: "split c s \<noteq> []"
  by (induction s) (auto split: list.splits)

lemma split_notin: "c \<notin> set s \<Longrightarrow> split c s = [s]"
  by (induction s) auto

lemma split_append: "c \<notin> set a \<Longrightarrow> split c (a @ c # r) = a # split c r"
  by (induction a) auto

lemma split_elem_notin: "x \<in> set (split c s) \<Longrightarrow> c \<notin> set x"
proof (induction s arbitrary: x)
  case Nil
  then show ?case by simp
next
  case (Cons y s)
  then show ?case
    by (cases "split c s") (auto split: if_splits simp: split_not_Nil)
qed

lemma join_split: "join [c] (split c s) = s"
proof (induction s)
  case Nil
  then show ?case by simp
next
  case (Cons y s)
  show ?case
  proof (cases "split c s")
    case Nil
    then show ?thesis by (simp add: split_not_Nil)
  next
    case (Cons w ws)
    with Cons.IH show ?thesis by (cases ws) (auto split: if_splits)
  qed
qed

lemma length_join:
  "length (join sep xs) = sum_list (map length xs) + length sep * (length xs - 1)"
  by (induction sep xs rule: join.induct) simp_all

lemma set_join_subset: "set (join sep xs) \<subseteq> set sep \<union> \<Union> (set ` set xs)"
  by (induction sep xs rule: join.induct) auto

lemma is_digit_not_special:
  "is_digit ch \<Longrightarrow> ch \<noteq> CHR ''.'' \<and> ch \<noteq> CHR ''-'' \<and> ch \<noteq> CHR ''+'' \<and> ch \<noteq> CHR ''v'' \<and> \<not> is_white ch"
  by (auto simp: is_digit_def is_white_def)

lemma is_letter_or_dash_not_special:
  "is_letter_or_dash ch \<Longrightarrow> ch \<noteq> CHR ''.'' \<and> ch \<noteq> CHR ''+'' \<and> \<not> is_white ch"
  by (auto simp: is_letter_or_dash_def is_white_def)

lemma numeric_identifierD:
  "numeric_identifier s \<Longrightarrow> s \<noteq> [] \<and> list_all is_digit s"
  by (simp add: numeric_identifier_def)

lemma digits_no_special:
  "list_all is_digit s \<Longrightarrow>
     CHR ''.'' \<notin> set s \<and> CHR ''-'' \<notin> set s \<and> CHR ''+'' \<notin> set s"
  using is_digit_not_special by (fastforce simp: list_all_iff)

lemma alnumdash_no_special:
  "list_all (\<lambda>c. is_digit c \<or> is_letter_or_dash c) s \<Longrightarrow>
     CHR ''.'' \<notin> set s \<and> CHR ''+'' \<notin> set s"
  using is_digit_not_special is_letter_or_dash_not_special by (fastforce simp: list_all_iff)

lemma prerelease_identifier_alnumdash:
  "prerelease_identifier s \<Longrightarrow> list_all (\<lambda>c. is_digit c \<or> is_letter_or_dash c) s"
  by (auto simp: prerelease_identifier_def nonnumeric_identifier_def numeric_identifier_def
      list_all_iff)

lemma prerelease_identifier_not_Nil: "prerelease_identifier s \<Longrightarrow> s \<noteq> []"
  by (auto simp: prerelease_identifier_def nonnumeric_identifier_def numeric_identifier_def)

lemma split_main:
  assumes "list_all is_digit a" "list_all is_digit b" "list_all is_digit c"
  shows "split CHR ''.'' (a @ ''.'' @ b @ ''.'' @ c) = [a, b, c]"
  using assms [THEN digits_no_special] by (simp add: split_append split_notin)

lemma FULL_plain:
  assumes "numeric_identifier a" "numeric_identifier b" "numeric_identifier c"
  shows "FULL (a @ ''.'' @ b @ ''.'' @ c) = Some (a, b, c, None, None)"
proof -
  let ?s = "a @ ''.'' @ b @ ''.'' @ c"
  note d = assms [THEN numeric_identifierD]
  from d obtain x xs where a: "a = x # xs" and x: "is_digit x" by (cases a) auto
  have nv: "x \<noteq> CHR ''v''" using x is_digit_not_special by blast
  have np: "CHR ''+'' \<notin> set ?s" and nd: "CHR ''-'' \<notin> set ?s"
    using d [THEN conjunct2, THEN digits_no_special] by auto
  have tw: "takeWhile (\<lambda>c. c \<noteq> CHR ''+'') ?s = ?s" "dropWhile (\<lambda>c. c \<noteq> CHR ''+'') ?s = []"
    using np by (auto simp: takeWhile_eq_all_conv)
  have tw2: "takeWhile (\<lambda>c. c \<noteq> CHR ''-'') ?s = ?s" "dropWhile (\<lambda>c. c \<noteq> CHR ''-'') ?s = []"
    using nd by (auto simp: takeWhile_eq_all_conv)
  have s1: "(case ?s of [] \<Rightarrow> [] | c # cs \<Rightarrow> if c = CHR ''v'' then cs else ?s) = ?s"
    using a nv by simp
  show ?thesis
    unfolding FULL_def s1 Let_def tw tw2
    using assms split_main [of a b c] d by simp
qed

lemma FULL_pre:
  assumes "numeric_identifier a" "numeric_identifier b" "numeric_identifier c"
    and "prerelease_identifier p" and "CHR ''.'' \<notin> set p" and "CHR ''+'' \<notin> set p"
  shows "FULL (a @ ''.'' @ b @ ''.'' @ c @ ''-'' @ p) = Some (a, b, c, Some p, None)"
proof -
  let ?m = "a @ ''.'' @ b @ ''.'' @ c"
  let ?s = "?m @ ''-'' @ p"
  note d = assms(1-3) [THEN numeric_identifierD]
  from d obtain x xs where a: "a = x # xs" and x: "is_digit x" by (cases a) auto
  have nv: "x \<noteq> CHR ''v''" using x is_digit_not_special by blast
  have np: "CHR ''+'' \<notin> set ?s"
    using d [THEN conjunct2, THEN digits_no_special] assms(6) by auto
  have nd: "\<forall>ch \<in> set ?m. ch \<noteq> CHR ''-''"
    using d [THEN conjunct2, THEN digits_no_special] by auto
  have tw: "takeWhile (\<lambda>c. c \<noteq> CHR ''+'') ?s = ?s" "dropWhile (\<lambda>c. c \<noteq> CHR ''+'') ?s = []"
    using np by (auto simp: takeWhile_eq_all_conv)
  have tw2: "takeWhile (\<lambda>c. c \<noteq> CHR ''-'') ?s = ?m"
    "dropWhile (\<lambda>c. c \<noteq> CHR ''-'') ?s = ''-'' @ p"
    using nd by (simp_all add: takeWhile_append2 dropWhile_append2)
  have s1: "(case ?s of [] \<Rightarrow> [] | c # cs \<Rightarrow> if c = CHR ''v'' then cs else ?s) = ?s"
    using a nv by simp
  have eq: "a @ ''.'' @ b @ ''.'' @ c @ ''-'' @ p = ?s" by simp
  show ?thesis
    unfolding eq FULL_def s1 Let_def tw tw2
    using assms split_main [of a b c] d by (simp add: split_notin)
qed

lemma trim_id: "s \<noteq> [] \<Longrightarrow> \<not> is_white (hd s) \<Longrightarrow> \<not> is_white (last s) \<Longrightarrow> trim s = s"
proof -
  assume a: "s \<noteq> []" "\<not> is_white (hd s)" "\<not> is_white (last s)"
  then have "dropWhile is_white s = s" by (cases s) auto
  moreover have "dropWhile is_white (rev s) = rev s"
    using a by (cases "rev s") (auto simp: last_rev [symmetric] hd_rev)
  ultimately show ?thesis by (simp add: trim_def)
qed

lemma SemVer_of_FULL:
  assumes "FULL s = Some (a, b, c, pre, build)" and "length s \<le> MAX_LENGTH"
    and "s \<noteq> []" and "\<not> is_white (hd s)" and "\<not> is_white (last s)"
    and "nat_of_digits a \<le> MAX_SAFE_INTEGER" "nat_of_digits b \<le> MAX_SAFE_INTEGER"
        "nat_of_digits c \<le> MAX_SAFE_INTEGER"
  shows "semver_valid s"
  using assms by (simp add: semver_valid_def SemVer_def trim_id)

lemma hackBadSemver_three:
  assumes "split CHR ''.'' raw = [a, b, c]" and "a \<noteq> []" "b \<noteq> []" "c \<noteq> []"
  shows "hackBadSemver raw = raw"
proof -
  have "hackBadSemver raw = join ''.'' [a, b, c]"
    using assms by (simp add: hackBadSemver_def nth_opt_def)
  also have "\<dots> = join ''.'' (split CHR ''.'' raw)" using assms(1) by simp
  also have "\<dots> = raw" by (rule join_split)
  finally show ?thesis .
qed

lemma hackBadSemver_more:
  assumes "split CHR ''.'' raw = a # b # c # r # rest" and "a \<noteq> []" "b \<noteq> []"
  shows "hackBadSemver raw = a @ ''.'' @ b @ ''.'' @ c @ ''-'' @ join ''-'' (r # rest)"
  using assms by (simp add: hackBadSemver_def nth_opt_def)

lemma length_hackBadSemver_more:
  assumes "split CHR ''.'' raw = a # b # c # r # rest" and "a \<noteq> []" "b \<noteq> []"
  shows "length (hackBadSemver raw) = length raw"
proof -
  have "length raw = length (join ''.'' (split CHR ''.'' raw))" by (simp add: join_split)
  also have "\<dots> = length (a @ ''.'' @ b @ ''.'' @ c @ ''-'' @ join ''-'' (r # rest))"
    unfolding assms(1) by (simp add: length_join)
  finally show ?thesis using hackBadSemver_more [OF assms] by simp
qed

lemma join_alnumdash:
  assumes "list_all (list_all (\<lambda>c. is_digit c \<or> is_letter_or_dash c)) xs"
  shows "list_all (\<lambda>c. is_digit c \<or> is_letter_or_dash c) (join ''-'' xs)"
proof -
  have dash: "is_letter_or_dash CHR ''-''" by (simp add: is_letter_or_dash_def)
  have "is_digit ch \<or> is_letter_or_dash ch" if "ch \<in> set (join ''-'' xs)" for ch
  proof -
    from that set_join_subset [of "''-''" xs]
    have "ch = CHR ''-'' \<or> (\<exists>x \<in> set xs. ch \<in> set x)" by auto
    then show ?thesis
    proof
      assume "ch = CHR ''-''"
      with dash show ?thesis by simp
    next
      assume "\<exists>x \<in> set xs. ch \<in> set x"
      then obtain x where "x \<in> set xs" "ch \<in> set x" by blast
      with assms show ?thesis unfolding list_all_iff by blast
    qed
  qed
  then show ?thesis unfolding list_all_iff by blast
qed

lemma join_dash_prerelease:
  assumes "list_all (list_all (\<lambda>c. is_digit c \<or> is_letter_or_dash c)) (r # r' # rest)"
  shows "prerelease_identifier (join ''-'' (r # r' # rest))"
proof -
  have dash: "is_letter_or_dash CHR ''-''" by (simp add: is_letter_or_dash_def)
  have "CHR ''-'' \<in> set (join ''-'' (r # r' # rest))" by simp
  with dash have "list_ex is_letter_or_dash (join ''-'' (r # r' # rest))"
    unfolding list_ex_iff by blast
  with join_alnumdash [OF assms] show ?thesis
    unfolding prerelease_identifier_def nonnumeric_identifier_def by blast
qed

lemma alnumdash_last_not_white:
  "list_all (\<lambda>c. is_digit c \<or> is_letter_or_dash c) s \<Longrightarrow> s \<noteq> [] \<Longrightarrow> \<not> is_white (last s)"
  using is_digit_not_special is_letter_or_dash_not_special last_in_set
  by (fastforce simp: list_all_iff)

lemma repairable_valid:
  assumes "repairable raw"
  shows "semver_valid (hackBadSemver raw)"
proof -
  from assms obtain a b c rest where sp: "split CHR ''.'' raw = a # b # c # rest"
    and len: "length raw \<le> MAX_LENGTH"
    and ma: "main_identifier a" and mb: "main_identifier b" and mc: "main_identifier c"
    and rs: "case rest of [] \<Rightarrow> True | [r] \<Rightarrow> prerelease_identifier r
             | _ \<Rightarrow> list_all (list_all (\<lambda>c. is_digit c \<or> is_letter_or_dash c)) rest"
    unfolding repairable_def by (auto split: list.splits)
  from ma mb mc have na: "numeric_identifier a" and nb: "numeric_identifier b"
    and nc: "numeric_identifier c"
    and ba: "nat_of_digits a \<le> MAX_SAFE_INTEGER" and bb: "nat_of_digits b \<le> MAX_SAFE_INTEGER"
    and bc: "nat_of_digits c \<le> MAX_SAFE_INTEGER"
    by (simp_all add: main_identifier_def)
  note da = na [THEN numeric_identifierD] and db = nb [THEN numeric_identifierD]
    and dc = nc [THEN numeric_identifierD]
  have hd_ok: "\<not> is_white (hd (a @ t))" for t
    using da is_digit_not_special by (cases a) auto
  show ?thesis
  proof (cases rest)
    case Nil
    with sp da db dc have out: "hackBadSemver raw = raw"
      by (intro hackBadSemver_three [of raw a b c]) simp_all
    have raw: "raw = a @ ''.'' @ b @ ''.'' @ c"
      using join_split [of "CHR ''.''" raw] sp Nil by simp
    have "\<not> is_white (last raw)"
      unfolding raw using dc alnumdash_last_not_white [of c] by (simp add: list_all_iff)
    with FULL_plain [OF na nb nc] len ba bb bc hd_ok [of "''.'' @ b @ ''.'' @ c"] da
    show ?thesis unfolding out
      by (intro SemVer_of_FULL [where a = a and b = b and c = c]) (simp_all add: raw)
  next
    case (Cons r rest')
    let ?p = "join ''-'' (r # rest')"
    have pre: "prerelease_identifier ?p"
    proof (cases rest')
      case Nil
      with rs Cons show ?thesis by simp
    next
      case (Cons r' rest'')
      with rs \<open>rest = r # rest'\<close> show ?thesis by (intro join_dash_prerelease [of r r' rest'', folded Cons]) simp
    qed
    have an: "list_all (\<lambda>c. is_digit c \<or> is_letter_or_dash c) ?p"
      using pre by (rule prerelease_identifier_alnumdash)
    note ns = an [THEN alnumdash_no_special]
    have out: "hackBadSemver raw = a @ ''.'' @ b @ ''.'' @ c @ ''-'' @ ?p"
      using sp Cons da db by (intro hackBadSemver_more) simp_all
    have olen: "length (hackBadSemver raw) = length raw"
      using sp Cons da db by (intro length_hackBadSemver_more [of raw a b c r rest']) simp_all
    have pn: "?p \<noteq> []" using pre by (rule prerelease_identifier_not_Nil)
    have "\<not> is_white (last (a @ ''.'' @ b @ ''.'' @ c @ ''-'' @ ?p))"
      using alnumdash_last_not_white [OF an pn] pn by simp
    with FULL_pre [OF na nb nc pre] ns olen len ba bb bc
      hd_ok [of "''.'' @ b @ ''.'' @ c @ ''-'' @ ?p"] da
    show ?thesis unfolding out [symmetric]
      by (intro SemVer_of_FULL [where a = a and b = b and c = c]) (simp_all add: out)
  qed
qed

text \<open>
  C6, as amended. For every raw string of at most 256 characters whose first three
  components are numeric identifiers (no leading zero, at most \<open>2^53 - 1\<close>) and whose
  further components are absent, or one pre-release identifier, or several components of
  letters, digits and hyphens, the output of \<open>hackBadSemver\<close> is a valid semantic
  version that the constructor accepts. A raw string of three non-empty components is
  returned unchanged.
\<close>

theorem hackBadSemver_valid:
  "(repairable raw \<longrightarrow>
      semver_valid (hackBadSemver raw) \<and> (\<exists>v. SemVer (hackBadSemver raw) = Inr v))
   \<and> (split CHR ''.'' raw = [a, b, c] \<and> a \<noteq> [] \<and> b \<noteq> [] \<and> c \<noteq> [] \<longrightarrow>
        hackBadSemver raw = raw)"
proof (intro conjI impI)
  assume r: "repairable raw"
  then show "semver_valid (hackBadSemver raw)" by (rule repairable_valid)
  then show "\<exists>v. SemVer (hackBadSemver raw) = Inr v"
    by (auto simp: semver_valid_def split: sum.splits)
next
  assume "split CHR ''.'' raw = [a, b, c] \<and> a \<noteq> [] \<and> b \<noteq> [] \<and> c \<noteq> []"
  then show "hackBadSemver raw = raw" by (intro hackBadSemver_three [of raw a b c]) simp_all
qed

theorem hackBadSemver_valid_witness:
  "semver_valid (hackBadSemver ''1.6.1.9'') \<and> hackBadSemver ''1.6.0'' = ''1.6.0''"
proof -
  have r: "repairable ''1.6.1.9''"
    by (simp add: repairable_def main_identifier_def numeric_identifier_def is_digit_def
        nat_of_digits_def digit_value_def MAX_LENGTH_def MAX_SAFE_INTEGER_def
        prerelease_identifier_def)
  have s: "split CHR ''.'' ''1.6.0'' = [''1'', ''6'', ''0'']" by simp
  from hackBadSemver_valid [of "''1.6.1.9''", THEN conjunct1, rule_format, OF r]
    hackBadSemver_valid [of "''1.6.0''" "''1''" "''6''" "''0''", THEN conjunct2, rule_format] s
  show ?thesis by simp
qed

text \<open>
  The claim as stated fails on a raw string of two components: \<open>1.6\<close> is returned as it
  is, and it is not a valid semantic version.
\<close>

theorem hackBadSemver_invalid_counterexample:
  "hackBadSemver ''1.6'' = ''1.6'' \<and> \<not> semver_valid (hackBadSemver ''1.6'')
   \<and> SemVer (hackBadSemver ''1.6'') = Inl InvalidVersion"
  by code_simp

text \<open>
  C5, as amended. A search field that is absent or the empty string is a wildcard. A
  non-empty \<open>model\<close> or \<open>appName\<close> requires equality; a non-empty \<open>firmware\<close> is
  satisfied by equality or by the normalised candidate firmware satisfying it as a
  range; a non-empty \<open>appVersion\<close> is satisfied exactly when the candidate version
  satisfies it as a range. The search with no field matches every candidate.
  \<open>findAppCandidate\<close> returns the first candidate of the sequence that matches, and
  nothing when none does.
\<close>

theorem appCandidatesMatches_fields:
  "appCandidatesMatches satisfies c s =
     ((truthy_model (search_model s) \<longrightarrow> search_model s = model c) \<and>
      (truthy (search_appName s) \<longrightarrow> search_appName s = Some (appName c)) \<and>
      (truthy (search_firmware s) \<longrightarrow>
         (\<exists>f. search_firmware s = Some f \<and>
              (firmware c = f \<or> satisfies (hackBadSemver (firmware c)) f))) \<and>
      (truthy (search_appVersion s) \<longrightarrow>
         (\<exists>v. search_appVersion s = Some v \<and> satisfies (appVersion c) v)))
   \<and> appCandidatesMatches satisfies c
        \<lparr>search_model = None, search_firmware = None, search_appName = None,
         search_appVersion = None, search_version = None\<rparr>
   \<and> (findAppCandidate satisfies cs s = None) =
        (\<forall>x \<in> set cs. \<not> appCandidatesMatches satisfies x s)
   \<and> (findAppCandidate satisfies cs s = Some x) =
        (\<exists>i < length cs. x = cs ! i \<and> appCandidatesMatches satisfies (cs ! i) s \<and>
             (\<forall>j < i. \<not> appCandidatesMatches satisfies (cs ! j) s))"
proof (intro conjI)
  show "appCandidatesMatches satisfies c s =
     ((truthy_model (search_model s) \<longrightarrow> search_model s = model c) \<and>
      (truthy (search_appName s) \<longrightarrow> search_appName s = Some (appName c)) \<and>
      (truthy (search_firmware s) \<longrightarrow>
         (\<exists>f. search_firmware s = Some f \<and>
              (firmware c = f \<or> satisfies (hackBadSemver (firmware c)) f))) \<and>
      (truthy (search_appVersion s) \<longrightarrow>
         (\<exists>v. search_appVersion s = Some v \<and> satisfies (appVersion c) v)))"
    unfolding appCandidatesMatches_def
    by (cases "search_appName s"; cases "search_firmware s"; cases "search_appVersion s") auto
  show "appCandidatesMatches satisfies c
        \<lparr>search_model = None, search_firmware = None, search_appName = None,
         search_appVersion = None, search_version = None\<rparr>"
    by (simp add: appCandidatesMatches_def)
  show "(findAppCandidate satisfies cs s = None) =
        (\<forall>x \<in> set cs. \<not> appCandidatesMatches satisfies x s)"
    by (auto simp: findAppCandidate_def find_None_iff)
  show "(findAppCandidate satisfies cs s = Some x) =
        (\<exists>i < length cs. x = cs ! i \<and> appCandidatesMatches satisfies (cs ! i) s \<and>
             (\<forall>j < i. \<not> appCandidatesMatches satisfies (cs ! j) s))"
    unfolding findAppCandidate_def find_Some_iff by blast
qed

theorem appCandidatesMatches_fields_witness:
  "appCandidatesMatches (\<lambda>v r. v = ''1.3.1'' \<and> r = ''^1.3.0'')
      (exampleCandidate ''1.6.0'' ''1.3.1'')
      \<lparr>search_model = Some (Own ''nanoS''), search_firmware = None, search_appName = Some ''bitcoin'',
       search_appVersion = Some ''^1.3.0'', search_version = None\<rparr>
   \<and> findAppCandidate (\<lambda>v r. v = ''1.3.1'' \<and> r = ''^1.3.0'')
        [exampleCandidate ''1.6.0'' ''1.2.0'', exampleCandidate ''1.6.0'' ''1.3.1'']
        \<lparr>search_model = Some (Own ''nanoS''), search_firmware = None, search_appName = Some ''bitcoin'',
         search_appVersion = Some ''^1.3.0'', search_version = None\<rparr>
      = Some (exampleCandidate ''1.6.0'' ''1.3.1'')"
proof -
  let ?sat = "\<lambda>v r. v = ''1.3.1'' \<and> r = ''^1.3.0''"
  let ?s = "\<lparr>search_model = Some (Own ''nanoS''), search_firmware = None, search_appName = Some ''bitcoin'',
       search_appVersion = Some ''^1.3.0'', search_version = None\<rparr>"
  note th = appCandidatesMatches_fields [of ?sat _ ?s]
  have m1: "appCandidatesMatches ?sat (exampleCandidate ''1.6.0'' ''1.3.1'') ?s"
    using th [of "exampleCandidate ''1.6.0'' ''1.3.1''", THEN conjunct1]
    by (simp add: exampleCandidate_def)
  have m0: "\<not> appCandidatesMatches ?sat (exampleCandidate ''1.6.0'' ''1.2.0'') ?s"
    using th [of "exampleCandidate ''1.6.0'' ''1.2.0''", THEN conjunct1]
    by (simp add: exampleCandidate_def)
  from m0 m1 have "findAppCandidate ?sat
        [exampleCandidate ''1.6.0'' ''1.2.0'', exampleCandidate ''1.6.0'' ''1.3.1''] ?s
      = Some (exampleCandidate ''1.6.0'' ''1.3.1'')"
    by (simp add: findAppCandidate_def)
  with m1 show ?thesis by blast
qed

text \<open>
  The claim as stated fails for a field that is present and empty: the search whose
  application name is the empty string matches a candidate named \<open>bitcoin\<close>.
\<close>

theorem appCandidatesMatches_empty_counterexample:
  "appCandidatesMatches (\<lambda>v r. False) (exampleCandidate ''1.6.0'' ''1.3.1'')
      \<lparr>search_model = None, search_firmware = None, search_appName = Some '''',
       search_appVersion = None, search_version = None\<rparr>
   \<and> appName (exampleCandidate ''1.6.0'' ''1.3.1'') \<noteq> ''''"
  by (simp add: appCandidatesMatches_def exampleCandidate_def)

subsection \<open>Version order and sorting\<close>

lemma string_less_key: "string_less a b \<longleftrightarrow> (map of_char a :: nat list) < map of_char b"
  by (induction a b rule: string_less.induct) auto

lemma ident_key_inj: "ident_key a = ident_key b \<longleftrightarrow> a = b"
proof (cases a; cases b)
  fix s t assume "a = Str s" "b = Str t"
  moreover have "(map of_char s :: nat list) = map of_char t \<longleftrightarrow> s = t"
    by (auto dest!: map_inj_on [where f = "of_char :: char \<Rightarrow> nat"] simp: inj_on_def)
  ultimately show ?thesis by simp
qed simp_all

lemma compareIdentifiers_plain:
  assumes "plain_ident a" and "plain_ident b"
  shows "compareIdentifiers a b =
           (if a = b then 0 else if ident_key a < ident_key b then - 1 else 1)"
proof (cases a; cases b)
  fix s t assume st: "a = Str s" "b = Str t"
  have "(map of_char s :: nat list) = map of_char t \<longleftrightarrow> s = t"
    using ident_key_inj [of "Str s" "Str t"] by simp
  with st assms show ?thesis
    by (auto simp: compareIdentifiers_def string_less_key)
qed (use assms in \<open>auto simp: compareIdentifiers_def\<close>)

lemma compareIdentifiers_le:
  "plain_ident a \<Longrightarrow> plain_ident b \<Longrightarrow> compareIdentifiers a b \<le> 0 \<longleftrightarrow> ident_key a \<le> ident_key b"
  using ident_key_inj [of a b] by (auto simp: compareIdentifiers_plain)

lemma compareIdentifiers_ge:
  "plain_ident a \<Longrightarrow> plain_ident b \<Longrightarrow> 0 \<le> compareIdentifiers a b \<longleftrightarrow> ident_key b \<le> ident_key a"
  using ident_key_inj [of a b] by (auto simp: compareIdentifiers_plain)

lemma comparePre_loop_le:
  "list_all plain_ident as \<Longrightarrow> list_all plain_ident bs \<Longrightarrow>
     comparePre_loop as bs \<le> 0 \<longleftrightarrow> map ident_key as \<le> map ident_key bs"
proof (induction as bs rule: comparePre_loop.induct)
  case (4 a as b bs)
  show ?case
  proof (cases "a = b")
    case True
    with 4 show ?thesis by simp
  next
    case False
    then have "ident_key a \<noteq> ident_key b" by (simp add: ident_key_inj)
    with False 4(2,3) show ?thesis using compareIdentifiers_le [of a b] by auto
  qed
qed simp_all

lemma comparePre_loop_ge:
  "list_all plain_ident as \<Longrightarrow> list_all plain_ident bs \<Longrightarrow>
     0 \<le> comparePre_loop as bs \<longleftrightarrow> map ident_key bs \<le> map ident_key as"
proof (induction as bs rule: comparePre_loop.induct)
  case (4 a as b bs)
  show ?case
  proof (cases "a = b")
    case True
    with 4 show ?thesis by simp
  next
    case False
    then have "ident_key a \<noteq> ident_key b" by (simp add: ident_key_inj)
    with False 4(2,3) show ?thesis using compareIdentifiers_ge [of a b] by auto
  qed
qed simp_all

lemma compareIdentifiers_Num:
  "compareIdentifiers (Num a) (Num b) = (if a = b then 0 else if a < b then - 1 else 1)"
  by (simp add: compareIdentifiers_def)

lemma compare_versions_le:
  "list_all plain_ident (prerelease v) \<Longrightarrow> list_all plain_ident (prerelease w) \<Longrightarrow>
     compare_versions v w \<le> 0 \<longleftrightarrow> version_key v \<le> version_key w"
  unfolding compare_versions_def compareMain_def comparePre_def version_key_def
  using comparePre_loop_le [of "prerelease v" "prerelease w"]
  by (auto simp: Let_def compareIdentifiers_Num)

lemma compare_versions_ge:
  "list_all plain_ident (prerelease v) \<Longrightarrow> list_all plain_ident (prerelease w) \<Longrightarrow>
     0 \<le> compare_versions v w \<longleftrightarrow> version_key w \<le> version_key v"
  unfolding compare_versions_def compareMain_def comparePre_def version_key_def
  using comparePre_loop_ge [of "prerelease v" "prerelease w"]
  by (auto simp: Let_def compareIdentifiers_Num)

lemma insert_sorted_set:
  "insert_sorted cmp x ys = Inr zs \<Longrightarrow> set zs = insert x (set ys) \<and> length zs = Suc (length ys)"
proof (induction ys arbitrary: zs)
  case Nil
  then show ?case by auto
next
  case (Cons y ys)
  then show ?case by (fastforce split: sum.splits if_splits)
qed

lemma array_sort_set:
  "array_sort cmp xs = Inr ys \<Longrightarrow> set ys = set xs \<and> length ys = length xs"
proof (induction xs arbitrary: ys)
  case Nil
  then show ?case by simp
next
  case (Cons x xs)
  then show ?case by (auto split: sum.splits dest!: insert_sorted_set)
qed

lemma insert_sorted_distinct:
  "insert_sorted cmp x ys = Inr zs \<Longrightarrow> distinct (map f (x # ys)) \<Longrightarrow> distinct (map f zs)"
proof (induction ys arbitrary: zs)
  case Nil
  then show ?case by auto
next
  case (Cons y ys)
  show ?case
  proof (cases "cmp x y")
    case (Inl e)
    with Cons.prems show ?thesis by simp
  next
    case (Inr k)
    show ?thesis
    proof (cases "k \<le> 0")
      case True
      with Inr Cons.prems show ?thesis by auto
    next
      case False
      with Inr Cons.prems obtain zs' where i: "insert_sorted cmp x ys = Inr zs'" and z: "zs = y # zs'"
        by (auto split: sum.splits)
      from Cons.prems(2) have "distinct (map f (x # ys))" by auto
      with Cons.IH [OF i] have "distinct (map f zs')" by blast
      moreover from insert_sorted_set [OF i] Cons.prems(2) have "f y \<notin> f ` set zs'" by auto
      ultimately show ?thesis using z by simp
    qed
  qed
qed

lemma array_sort_distinct:
  "array_sort cmp xs = Inr ys \<Longrightarrow> distinct (map f xs) \<Longrightarrow> distinct (map f ys)"
proof (induction xs arbitrary: ys)
  case Nil
  then show ?case by simp
next
  case (Cons x xs)
  from Cons.prems(1) obtain ys' where s: "array_sort cmp xs = Inr ys'"
    and i: "insert_sorted cmp x ys' = Inr ys" by (auto split: sum.splits)
  from Cons.prems(2) Cons.IH [OF s] have "distinct (map f ys')" by simp
  moreover from array_sort_set [OF s] Cons.prems(2) have "f x \<notin> f ` set ys'" by auto
  ultimately show ?case using insert_sorted_distinct [OF i, of f] by simp
qed





lemma insert_sorted_sorted:
  assumes le: "\<And>a b k. P a \<Longrightarrow> P b \<Longrightarrow> cmp a b = Inr k \<Longrightarrow> k \<le> 0 \<Longrightarrow> R a b"
    and ge: "\<And>a b k. P a \<Longrightarrow> P b \<Longrightarrow> cmp a b = Inr k \<Longrightarrow> 0 < k \<Longrightarrow> R b a"
    and tr: "\<And>a b c. P a \<Longrightarrow> P b \<Longrightarrow> P c \<Longrightarrow> R a b \<Longrightarrow> R b c \<Longrightarrow> R a c"
  shows "insert_sorted cmp x ys = Inr zs \<Longrightarrow> P x \<Longrightarrow> \<forall>y \<in> set ys. P y \<Longrightarrow> sorted_wrt R ys \<Longrightarrow>
           sorted_wrt R zs"
proof (induction ys arbitrary: zs)
  case Nil
  then show ?case by auto
next
  case (Cons y ys)
  show ?case
  proof (cases "cmp x y")
    case (Inl e)
    with Cons.prems show ?thesis by simp
  next
    case (Inr k)
    show ?thesis
    proof (cases "k \<le> 0")
      case True
      with Inr Cons.prems(2,3) have xy: "R x y" by (intro le [of x y k]) simp_all
      with Cons.prems(2,3,4) have "\<forall>z \<in> set ys. R x z" using tr [of x y] by auto
      with True Inr Cons.prems xy show ?thesis by auto
    next
      case False
      with Inr Cons.prems(2,3) have yx: "R y x" by (intro ge [of x y k]) simp_all
      from False Inr Cons.prems obtain zs' where i: "insert_sorted cmp x ys = Inr zs'"
        and z: "zs = y # zs'" by (auto split: sum.splits)
      from Cons.prems(2,3,4) Cons.IH [OF i] have "sorted_wrt R zs'" by simp
      moreover from insert_sorted_set [OF i] Cons.prems(4) yx have "\<forall>z \<in> set zs'. R y z" by auto
      ultimately show ?thesis using z by simp
    qed
  qed
qed

lemma array_sort_sorted:
  assumes le: "\<And>a b k. P a \<Longrightarrow> P b \<Longrightarrow> cmp a b = Inr k \<Longrightarrow> k \<le> 0 \<Longrightarrow> R a b"
    and ge: "\<And>a b k. P a \<Longrightarrow> P b \<Longrightarrow> cmp a b = Inr k \<Longrightarrow> 0 < k \<Longrightarrow> R b a"
    and tr: "\<And>a b c. P a \<Longrightarrow> P b \<Longrightarrow> P c \<Longrightarrow> R a b \<Longrightarrow> R b c \<Longrightarrow> R a c"
  shows "array_sort cmp xs = Inr ys \<Longrightarrow> \<forall>x \<in> set xs. P x \<Longrightarrow> sorted_wrt R ys"
proof (induction xs arbitrary: ys)
  case Nil
  then show ?case by simp
next
  case (Cons x xs)
  from Cons.prems obtain ys' where s: "array_sort cmp xs = Inr ys'"
    and i: "insert_sorted cmp x ys' = Inr ys" by (auto split: sum.splits)
  have so: "sorted_wrt R ys'" using Cons.IH [OF s] Cons.prems(2) by simp
  have py: "\<forall>y \<in> set ys'. P y" using array_sort_set [OF s] Cons.prems(2) by simp
  have px: "P x" using Cons.prems(2) by simp
  show ?case
    by (rule insert_sorted_sorted [where cmp = cmp and R = R and P = P, OF le ge tr i px py so])
qed

lemma version_le_cmp: "semver_compare a b = Inr k \<Longrightarrow> k \<le> 0 \<Longrightarrow> version_le a b"
  by (simp add: version_le_def)

lemma version_le_flip:
  "small_identifiers a \<Longrightarrow> small_identifiers b \<Longrightarrow> semver_compare a b = Inr k \<Longrightarrow> 0 < k \<Longrightarrow>
     version_le b a"
  unfolding version_le_def semver_compare_def small_identifiers_def
  using compare_versions_ge compare_versions_le
  by (auto split: sum.splits) (metis less_imp_le)

lemma version_le_trans:
  "small_identifiers a \<Longrightarrow> small_identifiers b \<Longrightarrow> small_identifiers c \<Longrightarrow>
     version_le a b \<Longrightarrow> version_le b c \<Longrightarrow> version_le a c"
  unfolding version_le_def semver_compare_def small_identifiers_def
  by (auto split: sum.splits simp: compare_versions_le)

lemma version_le_gte:
  "small_identifiers a \<Longrightarrow> small_identifiers b \<Longrightarrow> version_le a b \<Longrightarrow> version_gte b a"
  unfolding version_le_def version_gte_def semver_compare_def small_identifiers_def
  by (auto split: sum.splits simp: compare_versions_le compare_versions_ge)

subsection \<open>The files of an application directory and the candidates of a scan\<close>

lemma elf_name_iff:
  "startsWith elf ''app_'' \<and> endsWith elf ''.elf'' \<longleftrightarrow> (\<exists>v. elf = ''app_'' @ v @ ''.elf'')"
proof
  assume a: "startsWith elf ''app_'' \<and> endsWith elf ''.elf''"
  then have t: "take 4 elf = ''app_''" and l: "4 \<le> length elf"
    and d: "drop (length elf - 4) elf = ''.elf''"
    by (simp_all add: startsWith_def endsWith_def eval_nat_numeral)
  define r where "r = drop 4 elf"
  define p where "p = ''app_''"
  have lp: "length p = 4" by (simp add: p_def)
  have e: "elf = p @ r"
    using t append_take_drop_id [of 4 elf] unfolding r_def p_def by simp
  have dr: "drop (length r) (p @ r) = ''.elf''" using d e lp by simp
  have "4 \<le> length r"
  proof (rule ccontr)
    assume "\<not> 4 \<le> length r"
    then consider "length r = 0" | "length r = 1" | "length r = 2" | "length r = 3" by linarith
    then show False using dr unfolding p_def by cases auto
  qed
  then have "drop (length r - 4) r = ''.elf''" using dr lp by simp
  then have "r = take (length r - 4) r @ ''.elf''"
    using append_take_drop_id [of "length r - 4" r] by simp
  with e show "\<exists>v. elf = ''app_'' @ v @ ''.elf''" unfolding p_def by metis
next
  assume "\<exists>v. elf = ''app_'' @ v @ ''.elf''"
  then show "startsWith elf ''app_'' \<and> endsWith elf ''.elf''"
    by (auto simp: startsWith_def endsWith_def)
qed

lemma slice_elf_name: "slice 4 (length (''app_'' @ v @ ''.elf'') - 4) (''app_'' @ v @ ''.elf'') = v"
  by (simp add: slice_def)

lemma set_scan_elfs:
  "set (scan_elfs p3 md fw name elfs) =
     (\<lambda>v. \<lparr>path = path_join p3 (''app_'' @ v @ ''.elf''), model = md, firmware = fw,
            appName = name, appVersion = v\<rparr>) `
       {v. semver_valid v \<and> ''app_'' @ v @ ''.elf'' \<in> set elfs}"
proof (induction elfs)
  case Nil
  then show ?case by simp
next
  case (Cons elf elfs)
  let ?c = "\<lambda>v. \<lparr>path = path_join p3 (''app_'' @ v @ ''.elf''), model = md, firmware = fw,
            appName = name, appVersion = v\<rparr>"
  show ?case
  proof (cases "startsWith elf ''app_'' \<and> endsWith elf ''.elf''")
    case False
    then have "\<And>v. ''app_'' @ v @ ''.elf'' \<noteq> elf" using elf_name_iff [of elf] by auto
    then have "{v. semver_valid v \<and> ''app_'' @ v @ ''.elf'' \<in> set (elf # elfs)} =
               {v. semver_valid v \<and> ''app_'' @ v @ ''.elf'' \<in> set elfs}" by auto
    with False Cons.IH show ?thesis by auto
  next
    case True
    then obtain w where w: "elf = ''app_'' @ w @ ''.elf''" using elf_name_iff [of elf] by auto
    have sl: "slice 4 (length elf - 4) elf = w" unfolding w by (rule slice_elf_name)
    have "{v. semver_valid v \<and> ''app_'' @ v @ ''.elf'' \<in> set (elf # elfs)} =
          (if semver_valid w then {w} else {}) \<union>
          {v. semver_valid v \<and> ''app_'' @ v @ ''.elf'' \<in> set elfs}"
      unfolding w by auto
    with True Cons.IH sl show ?thesis by (auto simp: Let_def w)
  qed
qed


lemma scan_elfs_valid: "x \<in> set (scan_elfs p3 md fw name elfs) \<Longrightarrow>
    semver_valid (appVersion x) \<and> model x = md \<and> firmware x = fw \<and> appName x = name"
  unfolding set_scan_elfs by auto

lemma scan_elfs_names: "x \<in> set (scan_elfs p3 md fw name elfs) \<Longrightarrow>
    ''app_'' @ appVersion x @ ''.elf'' \<in> set elfs"
  unfolding set_scan_elfs by auto



















lemma SemVer_examples:
  "SemVer ''1.6.0'' = Inr \<lparr>major = 1, minor = 6, patch = 0, prerelease = []\<rparr>"
  "SemVer ''2.0.0'' = Inr \<lparr>major = 2, minor = 0, patch = 0, prerelease = []\<rparr>"
  "SemVer ''1.2.0'' = Inr \<lparr>major = 1, minor = 2, patch = 0, prerelease = []\<rparr>"
  "SemVer ''1.3.1'' = Inr \<lparr>major = 1, minor = 3, patch = 1, prerelease = []\<rparr>"
  "SemVer ''1.6'' = Inl InvalidVersion"
  "SemVer ''2.0'' = Inl InvalidVersion"
  by (simp_all add: SemVer_def FULL_def trim_def is_white_def MAX_LENGTH_def
      MAX_SAFE_INTEGER_def numeric_identifier_def is_digit_def nat_of_digits_def digit_value_def)

lemma semver_valid_examples:
  "semver_valid ''1.2.0''" "semver_valid ''1.3.1''" "\<not> semver_valid ''latest''"
  by (simp_all add: semver_valid_def SemVer_def FULL_def trim_def is_white_def MAX_LENGTH_def
      MAX_SAFE_INTEGER_def numeric_identifier_def is_digit_def nat_of_digits_def digit_value_def)

lemma hackBadSemver_examples:
  "hackBadSemver ''1.6.0'' = ''1.6.0''" "hackBadSemver ''2.0.0'' = ''2.0.0''"
  "hackBadSemver ''1.6'' = ''1.6''" "hackBadSemver ''2.0'' = ''2.0''"
  by (simp_all add: hackBadSemver_def nth_opt_def)

lemmas scan_eval =
  listAppCandidates_def scan_model_def scan_firmware_def scan_app_def Let_def tree_def
  path_join_def path_normalize_def modelMapPriority_def modelMap_def lookup_property_def
  object_prototype_keys_def toLowerCase_def lower_char_def startsWith_def endsWith_def slice_def
  semver_valid_examples semver_compare_def SemVer_examples hackBadSemver_examples
  compare_versions_def compareMain_def comparePre_def compareIdentifiers_def


lemma listAppCandidates_fixture_short:
  "listAppCandidates (fixture ''1.6'' ''2.0'') ''apps'' = Inl InvalidVersion"
  by (simp add: fixture_def scan_eval)



subsection \<open>The order of the scan\<close>

lemma scan_app_ordered:
  assumes "scan_app readdir p2 md fw name = Inr c"
    and ok: "\<forall>p names. readdir p = Inr names \<longrightarrow>
         distinct names \<and>
         (\<forall>n \<in> set names.
            small_identifiers (hackBadSemver n) \<and>
            (startsWith n ''app_'' \<and> endsWith n ''.elf'' \<longrightarrow>
               small_identifiers (slice 4 (length n - 4) n)))"
  shows "(\<forall>x \<in> set c. model x = md \<and> firmware x = fw \<and> appName x = name)
       \<and> sorted_wrt (\<lambda>a b. version_gte (appVersion a) (appVersion b)) c"
proof -
  let ?p3 = "path_join p2 name"
  let ?cmp = "\<lambda>a b. semver_compare (appVersion a) (appVersion b)"
  let ?R = "\<lambda>a b. version_le (appVersion a) (appVersion b)"
  let ?P = "\<lambda>a. small_identifiers (appVersion a)"
  from assms(1) obtain elfs ys where rd: "readdir ?p3 = Inr elfs"
    and s: "array_sort ?cmp (scan_elfs ?p3 md fw name elfs) = Inr ys" and c: "c = rev ys"
    by (auto simp: scan_app_def Let_def split: sum.splits)
  have small: "\<forall>x \<in> set (scan_elfs ?p3 md fw name elfs). ?P x"
  proof
    fix x assume "x \<in> set (scan_elfs ?p3 md fw name elfs)"
    then have m: "''app_'' @ appVersion x @ ''.elf'' \<in> set elfs" by (rule scan_elfs_names)
    have "startsWith (''app_'' @ appVersion x @ ''.elf'') ''app_'' \<and>
          endsWith (''app_'' @ appVersion x @ ''.elf'') ''.elf''"
      using elf_name_iff by blast
    with ok rd m have "small_identifiers (slice 4 (length (''app_'' @ appVersion x @ ''.elf'') - 4)
        (''app_'' @ appVersion x @ ''.elf''))" by blast
    then show "?P x" by (simp only: slice_elf_name)
  qed
  have so: "sorted_wrt ?R ys"
  proof (rule array_sort_sorted [where cmp = ?cmp and R = ?R and P = ?P, OF _ _ _ s small])
    show "\<And>a b k. ?P a \<Longrightarrow> ?P b \<Longrightarrow> ?cmp a b = Inr k \<Longrightarrow> k \<le> 0 \<Longrightarrow> ?R a b"
      by (rule version_le_cmp)
    show "\<And>a b k. ?P a \<Longrightarrow> ?P b \<Longrightarrow> ?cmp a b = Inr k \<Longrightarrow> 0 < k \<Longrightarrow> ?R b a"
      by (rule version_le_flip)
    show "\<And>a b c. ?P a \<Longrightarrow> ?P b \<Longrightarrow> ?P c \<Longrightarrow> ?R a b \<Longrightarrow> ?R b c \<Longrightarrow> ?R a c"
      by (rule version_le_trans)
  qed
  have sy: "\<forall>x \<in> set ys. ?P x" using small array_sort_set [OF s] by simp
  have "sorted_wrt (\<lambda>a b. version_gte (appVersion b) (appVersion a)) ys"
    using so by (rule sorted_wrt_mono_rel [rotated]) (use sy in \<open>simp add: version_le_gte\<close>)
  then have "sorted_wrt (\<lambda>a b. version_gte (appVersion a) (appVersion b)) c"
    unfolding c by (simp add: sorted_wrt_rev)
  moreover have "set c = set (scan_elfs ?p3 md fw name elfs)"
    using array_sort_set [OF s] c by simp
  ultimately show ?thesis using scan_elfs_valid by blast
qed

lemma scan_apps_ordered:
  "scan_apps readdir p2 md fw names = Inr cs \<Longrightarrow> distinct names \<Longrightarrow>
     \<forall>p names. readdir p = Inr names \<longrightarrow>
         distinct names \<and>
         (\<forall>n \<in> set names.
            small_identifiers (hackBadSemver n) \<and>
            (startsWith n ''app_'' \<and> endsWith n ''.elf'' \<longrightarrow>
               small_identifiers (slice 4 (length n - 4) n))) \<Longrightarrow>
     sorted_wrt precedes cs \<and>
     (\<forall>x \<in> set cs. model x = md \<and> firmware x = fw \<and> appName x \<in> set names)"
proof (induction names arbitrary: cs)
  case Nil
  then show ?case by simp
next
  case (Cons name names)
  from Cons.prems(1) obtain c cs' where a: "scan_app readdir p2 md fw name = Inr c"
    and r: "scan_apps readdir p2 md fw names = Inr cs'" and cs: "cs = c @ cs'"
    by (auto split: sum.splits)
  from scan_app_ordered [OF a Cons.prems(3)]
  have cm: "\<forall>x \<in> set c. model x = md \<and> firmware x = fw \<and> appName x = name"
    and cso: "sorted_wrt (\<lambda>a b. version_gte (appVersion a) (appVersion b)) c" by blast+
  from Cons.IH [OF r _ Cons.prems(3)] Cons.prems(2)
  have rs: "sorted_wrt precedes cs'"
    and rm: "\<forall>x \<in> set cs'. model x = md \<and> firmware x = fw \<and> appName x \<in> set names" by auto
  have "sorted_wrt precedes c"
    using cso by (rule sorted_wrt_mono_rel [rotated]) (use cm in \<open>auto simp: precedes_def model_priority_def\<close>)
  moreover have "\<forall>x \<in> set c. \<forall>y \<in> set cs'. precedes x y"
    using cm rm Cons.prems(2) by (auto simp: precedes_def model_priority_def)
  ultimately show ?case using rs cm rm cs by (auto simp: sorted_wrt_append)
qed

lemma scan_firmware_ordered:
  assumes "scan_firmware readdir p1 md fw = Inr cs"
    and ok: "\<forall>p names. readdir p = Inr names \<longrightarrow>
         distinct names \<and>
         (\<forall>n \<in> set names.
            small_identifiers (hackBadSemver n) \<and>
            (startsWith n ''app_'' \<and> endsWith n ''.elf'' \<longrightarrow>
               small_identifiers (slice 4 (length n - 4) n)))"
  shows "sorted_wrt precedes cs \<and> (\<forall>x \<in> set cs. model x = md \<and> firmware x = fw)"
proof -
  from assms(1) obtain names where rd: "readdir (path_join p1 fw) = Inr names"
    and s: "scan_apps readdir (path_join p1 fw) md fw names = Inr cs"
    by (auto simp: scan_firmware_def Let_def split: sum.splits)
  from ok rd have "distinct names" by blast
  from scan_apps_ordered [OF s this ok] show ?thesis by blast
qed

lemma scan_firmwares_ordered:
  "scan_firmwares readdir p1 md fws = Inr cs \<Longrightarrow> distinct fws \<Longrightarrow>
     sorted_wrt firmware_gte fws \<Longrightarrow>
     \<forall>p names. readdir p = Inr names \<longrightarrow>
         distinct names \<and>
         (\<forall>n \<in> set names.
            small_identifiers (hackBadSemver n) \<and>
            (startsWith n ''app_'' \<and> endsWith n ''.elf'' \<longrightarrow>
               small_identifiers (slice 4 (length n - 4) n))) \<Longrightarrow>
     sorted_wrt precedes cs \<and> (\<forall>x \<in> set cs. model x = md \<and> firmware x \<in> set fws)"
proof (induction fws arbitrary: cs)
  case Nil
  then show ?case by simp
next
  case (Cons fw fws)
  from Cons.prems(1) obtain c cs' where a: "scan_firmware readdir p1 md fw = Inr c"
    and r: "scan_firmwares readdir p1 md fws = Inr cs'" and cs: "cs = c @ cs'"
    by (auto split: sum.splits)
  from scan_firmware_ordered [OF a Cons.prems(4)]
  have cso: "sorted_wrt precedes c" and cm: "\<forall>x \<in> set c. model x = md \<and> firmware x = fw"
    by blast+
  from Cons.IH [OF r _ _ Cons.prems(4)] Cons.prems(2,3)
  have rs: "sorted_wrt precedes cs'"
    and rm: "\<forall>x \<in> set cs'. model x = md \<and> firmware x \<in> set fws" by auto
  have "\<forall>x \<in> set c. \<forall>y \<in> set cs'. precedes x y"
    using cm rm Cons.prems(2,3) by (auto simp: precedes_def model_priority_def)
  with cso rs cm rm cs show ?case by (auto simp: sorted_wrt_append)
qed

lemma scan_model_ordered:
  assumes "scan_model readdir cwd modelName = Inr cs"
    and ok: "\<forall>p names. readdir p = Inr names \<longrightarrow>
         distinct names \<and>
         (\<forall>n \<in> set names.
            small_identifiers (hackBadSemver n) \<and>
            (startsWith n ''app_'' \<and> endsWith n ''.elf'' \<longrightarrow>
               small_identifiers (slice 4 (length n - 4) n)))"
  shows "sorted_wrt precedes cs \<and> (\<forall>x \<in> set cs. model x = modelMap (toLowerCase modelName))"
proof -
  let ?md = "modelMap (toLowerCase modelName)"
  let ?p1 = "path_join cwd modelName"
  let ?cmp = "\<lambda>a b. semver_compare (hackBadSemver a) (hackBadSemver b)"
  let ?R = "\<lambda>a b. version_le (hackBadSemver a) (hackBadSemver b)"
  let ?P = "\<lambda>a. small_identifiers (hackBadSemver a)"
  from assms(1) obtain fws sf where rd: "readdir ?p1 = Inr fws"
    and s: "array_sort ?cmp fws = Inr sf"
    and r: "scan_firmwares readdir ?p1 ?md (rev sf) = Inr cs"
    by (auto simp: scan_model_def Let_def split: sum.splits)
  from ok rd have "distinct fws" and small: "\<forall>x \<in> set fws. ?P x" by blast+
  then have "distinct (map (\<lambda>x. x) sf)"
    using array_sort_distinct [OF s, of "\<lambda>x. x"] by simp
  then have d: "distinct (rev sf)" by simp
  have so: "sorted_wrt ?R sf"
  proof (rule array_sort_sorted [where cmp = ?cmp and R = ?R and P = ?P, OF _ _ _ s small])
    show "\<And>a b k. ?P a \<Longrightarrow> ?P b \<Longrightarrow> ?cmp a b = Inr k \<Longrightarrow> k \<le> 0 \<Longrightarrow> ?R a b"
      by (rule version_le_cmp)
    show "\<And>a b k. ?P a \<Longrightarrow> ?P b \<Longrightarrow> ?cmp a b = Inr k \<Longrightarrow> 0 < k \<Longrightarrow> ?R b a"
      by (rule version_le_flip)
    show "\<And>a b c. ?P a \<Longrightarrow> ?P b \<Longrightarrow> ?P c \<Longrightarrow> ?R a b \<Longrightarrow> ?R b c \<Longrightarrow> ?R a c"
      by (rule version_le_trans)
  qed
  have sy: "\<forall>x \<in> set sf. ?P x" using small array_sort_set [OF s] by simp
  have "sorted_wrt (\<lambda>a b. firmware_gte b a) sf"
    using so by (rule sorted_wrt_mono_rel [rotated])
      (use sy in \<open>simp add: version_le_gte firmware_gte_def\<close>)
  then have o: "sorted_wrt firmware_gte (rev sf)" by (simp add: sorted_wrt_rev)
  from scan_firmwares_ordered [OF r d o ok] show ?thesis by blast
qed

lemma priority_key:
  assumes "modelMapPriority k = Some (Own p)"
  shows "\<exists>v. modelMap k = Some (Own v) \<and> toLowerCase v = k \<and>
              modelMapPriority (toLowerCase v) = Some (Own p)"
proof -
  from assms have "k = ''nanos'' \<or> k = ''nanox'' \<or> k = ''blue''"
    by (auto simp: modelMapPriority_def lookup_property_def split: if_splits)
  with assms show ?thesis
    by (auto simp: modelMap_def modelMapPriority_def lookup_property_def toLowerCase_def
        lower_char_def)
qed

lemma scan_models_ordered:
  "scan_models readdir cwd ms = Inr cs \<Longrightarrow>
     \<forall>p names. readdir p = Inr names \<longrightarrow>
         distinct names \<and>
         (\<forall>n \<in> set names.
            small_identifiers (hackBadSemver n) \<and>
            (startsWith n ''app_'' \<and> endsWith n ''.elf'' \<longrightarrow>
               small_identifiers (slice 4 (length n - 4) n))) \<Longrightarrow>
     distinct (map toLowerCase ms) \<Longrightarrow>
     sorted_wrt (\<lambda>a b. pr b \<le> pr a) ms \<Longrightarrow>
     \<forall>m \<in> set ms. modelMapPriority (toLowerCase m) = Some (Own (pr m)) \<Longrightarrow>
     sorted_wrt precedes cs \<and>
     (\<forall>x \<in> set cs. \<exists>m \<in> set ms. \<exists>v. model x = Some (Own v) \<and> toLowerCase v = toLowerCase m)"
proof (induction ms arbitrary: cs)
  case Nil
  then show ?case by simp
next
  case (Cons m ms)
  from Cons.prems(1) obtain c cs' where a: "scan_model readdir cwd m = Inr c"
    and r: "scan_models readdir cwd ms = Inr cs'" and cs: "cs = c @ cs'"
    by (auto split: sum.splits)
  from Cons.prems(5) have p: "modelMapPriority (toLowerCase m) = Some (Own (pr m))" by simp
  from priority_key [OF p] obtain v where v: "modelMap (toLowerCase m) = Some (Own v)"
    and lv: "toLowerCase v = toLowerCase m" by blast
  from scan_model_ordered [OF a Cons.prems(2)] v
  have cso: "sorted_wrt precedes c" and cm: "\<forall>x \<in> set c. model x = Some (Own v)" by auto
  from Cons.IH [OF r Cons.prems(2)] Cons.prems(3,4,5)
  have rs: "sorted_wrt precedes cs'"
    and rm: "\<forall>x \<in> set cs'. \<exists>m' \<in> set ms. \<exists>v'. model x = Some (Own v') \<and>
                toLowerCase v' = toLowerCase m'" by auto
  have "precedes x y" if x: "x \<in> set c" and y: "y \<in> set cs'" for x y
  proof -
    from x cm have mx: "model x = Some (Own v)" by simp
    from y rm obtain m' v' where m': "m' \<in> set ms" and my: "model y = Some (Own v')"
      and ly: "toLowerCase v' = toLowerCase m'" by blast
    from m' Cons.prems(3) have ne: "toLowerCase m \<noteq> toLowerCase m'" by auto
    with lv ly have "v \<noteq> v'" by auto
    with mx my have "model x \<noteq> model y" by simp
    moreover from m' Cons.prems(4) have "pr m' \<le> pr m" by auto
    moreover from m' Cons.prems(5)
    have "modelMapPriority (toLowerCase m') = Some (Own (pr m'))" by auto
    ultimately show ?thesis using p mx my lv ly by (simp add: precedes_def model_priority_def)
  qed
  with cso rs cs have "sorted_wrt precedes cs" by (simp add: sorted_wrt_append)
  moreover have "\<forall>x \<in> set cs. \<exists>m' \<in> set (m # ms). \<exists>v'. model x = Some (Own v') \<and>
      toLowerCase v' = toLowerCase m'"
    using cm lv rm cs by auto
  ultimately show ?case by blast
qed

lemma model_entries_set:
  "e \<in> set (model_entries names) \<Longrightarrow>
     fst e \<in> set names \<and> modelMapPriority (toLowerCase (fst e)) = Some (snd e)"
  by (induction names) (auto split: option.splits if_splits)

lemma own_priority:
  "modelMapPriority k = Some pr \<Longrightarrow> k \<notin> set object_prototype_keys \<Longrightarrow> \<exists>n. pr = Own n"
  by (auto simp: modelMapPriority_def lookup_property_def split: option.splits if_splits)

lemma listAppCandidates_ordered_general:
  assumes "ordinary_tree readdir cwd" and "listAppCandidates readdir cwd = Inr cs"
  shows "sorted_wrt precedes cs"
proof -
  let ?cmp = "\<lambda>a b :: string \<times> nat property. (Inr (priority_difference (snd b) (snd a)) :: error + int)"
  define num :: "nat property \<Rightarrow> nat" where "num = (\<lambda>p. case p of Own n \<Rightarrow> n | Inherited k \<Rightarrow> 0)"
  define pr where "pr = (\<lambda>m. case modelMapPriority (toLowerCase m) of Some p \<Rightarrow> num p | None \<Rightarrow> 0)"
  let ?R = "\<lambda>a b :: string \<times> nat property. num (snd b) \<le> num (snd a)"
  let ?P = "\<lambda>e :: string \<times> nat property. \<exists>n. snd e = Own n"
  from assms(1) have ok: "\<forall>p names. readdir p = Inr names \<longrightarrow>
         distinct names \<and>
         (\<forall>n \<in> set names.
            small_identifiers (hackBadSemver n) \<and>
            (startsWith n ''app_'' \<and> endsWith n ''.elf'' \<longrightarrow>
               small_identifiers (slice 4 (length n - 4) n)))"
    and dm: "\<forall>names. readdir cwd = Inr names \<longrightarrow>
         distinct (map (\<lambda>e. toLowerCase (fst e)) (model_entries names)) \<and>
         (\<forall>n \<in> set names. toLowerCase n \<notin> set object_prototype_keys)"
    by (simp_all add: ordinary_tree_def)
  from assms(2) obtain names es where rd: "readdir cwd = Inr names"
    and s: "array_sort ?cmp (model_entries names) = Inr es"
    and r: "scan_models readdir cwd (map fst es) = Inr cs"
    by (auto simp: listAppCandidates_def split: sum.splits)
  have own: "?P e" and pe: "modelMapPriority (toLowerCase (fst e)) = Some (snd e)"
    if "e \<in> set (model_entries names)" for e
  proof -
    from model_entries_set [OF that] have n: "fst e \<in> set names"
      and p: "modelMapPriority (toLowerCase (fst e)) = Some (snd e)" by blast+
    from dm rd n have "toLowerCase (fst e) \<notin> set object_prototype_keys" by blast
    with p show "?P e" by (rule own_priority)
    from p show "modelMapPriority (toLowerCase (fst e)) = Some (snd e)" .
  qed
  have so: "sorted_wrt ?R es"
  proof (rule array_sort_sorted [where cmp = ?cmp and R = ?R and P = ?P, OF _ _ _ s])
    show "\<forall>x \<in> set (model_entries names). ?P x" using own by blast
  qed (auto simp: num_def)
  have es: "set es = set (model_entries names)" using array_sort_set [OF s] by simp
  have "distinct (map (\<lambda>e. toLowerCase (fst e)) es)"
    using array_sort_distinct [OF s] dm rd by blast
  then have d: "distinct (map toLowerCase (map fst es))" by (simp add: comp_def)
  have pq: "pr (fst e) = num (snd e)" if "e \<in> set es" for e
    using pe [of e] that es by (simp add: pr_def)
  have "sorted_wrt (\<lambda>a b. pr (fst b) \<le> pr (fst a)) es"
    using so by (rule sorted_wrt_mono_rel [rotated]) (simp add: pq)
  then have o: "sorted_wrt (\<lambda>a b. pr b \<le> pr a) (map fst es)"
    by (simp add: sorted_wrt_map)
  have k: "\<forall>m \<in> set (map fst es). modelMapPriority (toLowerCase m) = Some (Own (pr m))"
  proof
    fix m assume "m \<in> set (map fst es)"
    then obtain e where e: "e \<in> set es" and m: "m = fst e" by auto
    from e es own [of e] obtain n where n: "snd e = Own n" by blast
    from e es pe [of e] have "modelMapPriority (toLowerCase m) = Some (snd e)" by (simp add: m)
    moreover from pq [OF e] n have "pr m = n" by (simp add: m num_def)
    ultimately show "modelMapPriority (toLowerCase m) = Some (Own (pr m))" using n by simp
  qed
  from scan_models_ordered [OF r ok d o k] show ?thesis by blast
qed

lemma SemVer_rounding:
  "SemVer ''1.0.0-9007199254740993.9'' =
     Inr \<lparr>major = 1, minor = 0, patch = 0, prerelease = [Str ''9007199254740993'', Num 9]\<rparr>"
  "SemVer ''1.0.0-9007199254740992.5'' =
     Inr \<lparr>major = 1, minor = 0, patch = 0, prerelease = [Str ''9007199254740992'', Num 5]\<rparr>"
  "SemVer ''1.0.0-9007199254740993.1'' =
     Inr \<lparr>major = 1, minor = 0, patch = 0, prerelease = [Str ''9007199254740993'', Num 1]\<rparr>"
  by (simp_all add: SemVer_def FULL_def trim_def is_white_def MAX_LENGTH_def
      MAX_SAFE_INTEGER_def numeric_identifier_def prerelease_identifier_def
      nonnumeric_identifier_def is_letter_or_dash_def is_digit_def nat_of_digits_def digit_value_def)

lemma semver_valid_rounding:
  "semver_valid ''1.0.0-9007199254740993.9''"
  "semver_valid ''1.0.0-9007199254740992.5''"
  "semver_valid ''1.0.0-9007199254740993.1''"
  by (simp_all add: semver_valid_def SemVer_rounding MAX_LENGTH_def FULL_def
      numeric_identifier_def prerelease_identifier_def
      nonnumeric_identifier_def is_letter_or_dash_def is_digit_def)

lemma to_double_rounding:
  "to_double (nat_of_digits ''9007199254740993'') = 9007199254740992"
  "to_double (nat_of_digits ''9007199254740992'') = 9007199254740992"
  by (simp_all add: to_double_def bit_length.simps Let_def nat_of_digits_def digit_value_def)

lemma semver_compare_rounding:
  "semver_compare ''1.0.0-9007199254740993.9'' ''1.0.0-9007199254740992.5'' = Inr 0"
  "semver_compare ''1.0.0-9007199254740992.5'' ''1.0.0-9007199254740993.1'' = Inr 0"
  "semver_compare ''1.0.0-9007199254740993.1'' ''1.0.0-9007199254740993.9'' = Inr (- 1)"
  by (simp_all add: semver_compare_def SemVer_rounding compare_versions_def compareMain_def
      comparePre_def compareIdentifiers_def to_double_rounding is_digit_def)

lemma listAppCandidates_fixture:
  "listAppCandidates (fixture ''1.6.0'' ''2.0.0'') ''apps'' = Inr fixtureCandidates"
  by (simp add: fixture_def fixtureCandidates_def scan_eval)

lemma listAppCandidates_caseTree:
  "listAppCandidates caseTree ''apps'' = Inr caseCandidates"
  by (simp add: caseTree_def caseCandidates_def scan_eval)

lemma listAppCandidates_prototypeTree:
  "listAppCandidates prototypeTree ''apps'' = Inr prototypeCandidates"
  by (simp add: prototypeTree_def prototypeCandidates_def scan_eval)

lemma listAppCandidates_roundingTree:
  "listAppCandidates roundingTree ''apps'' = Inr roundingCandidates"
  by (simp add: roundingTree_def roundingCandidates_def exampleCandidate_def
      listAppCandidates_def scan_model_def scan_firmware_def scan_app_def Let_def tree_def
      path_join_def path_normalize_def modelMapPriority_def modelMap_def lookup_property_def
      toLowerCase_def lower_char_def startsWith_def endsWith_def slice_def
      semver_valid_rounding semver_compare_rounding hackBadSemver_examples)

lemma firmware_gte_examples:
  "\<not> firmware_gte ''1.6.0'' ''2.0.0''" "firmware_gte ''2.0.0'' ''1.6.0''"
  by (simp_all add: firmware_gte_def version_gte_def hackBadSemver_examples semver_compare_def
      SemVer_examples compare_versions_def compareMain_def comparePre_def compareIdentifiers_def)

lemma not_sorted_caseCandidates: "\<not> sorted_wrt precedes caseCandidates"
  by (simp add: caseCandidates_def precedes_def firmware_gte_examples)

lemma not_sorted_prototypeCandidates: "\<not> sorted_wrt precedes prototypeCandidates"
  by (simp add: prototypeCandidates_def precedes_def model_priority_def modelMapPriority_def
      lookup_property_def toLowerCase_def lower_char_def)

lemma not_sorted_roundingCandidates: "\<not> sorted_wrt precedes roundingCandidates"
  by (simp add: roundingCandidates_def exampleCandidate_def precedes_def version_gte_def
      semver_compare_rounding)

lemma if_chain_Inr:
  "(if A then Inr a else if B then Inr b else if C then Inr c else if D then Inr d else Inl e) = Inr x
     \<Longrightarrow> x = a \<or> x = b \<or> x = c \<or> x = d"
  by (auto split: if_splits)

lemma small_identifiers_fixture:
  "small_identifiers (hackBadSemver ''nanos'')" "small_identifiers (hackBadSemver ''nanox'')"
  "small_identifiers (hackBadSemver ''1.6.0'')" "small_identifiers (hackBadSemver ''2.0.0'')"
  "small_identifiers (hackBadSemver ''bitcoin'')"
  "small_identifiers (hackBadSemver ''app_1.2.0.elf'')"
  "small_identifiers (hackBadSemver ''app_1.3.1.elf'')"
  "small_identifiers ''1.2.0''" "small_identifiers ''1.3.1''"
  by (simp_all add: small_identifiers_def hackBadSemver_def nth_opt_def SemVer_def FULL_def trim_def
      is_white_def MAX_LENGTH_def MAX_SAFE_INTEGER_def numeric_identifier_def is_digit_def
      nat_of_digits_def digit_value_def prerelease_identifier_def nonnumeric_identifier_def
      is_letter_or_dash_def)

lemma ordinary_fixture: "ordinary_tree (fixture ''1.6.0'' ''2.0.0'') ''apps''"
  unfolding ordinary_tree_def
proof (intro conjI allI impI)
  fix p names assume "fixture ''1.6.0'' ''2.0.0'' p = Inr names"
  then have n: "names = [''nanos'', ''nanox''] \<or> names = [''1.6.0'', ''2.0.0''] \<or>
      names = [''bitcoin''] \<or> names = [''app_1.2.0.elf'', ''app_1.3.1.elf'']"
    unfolding fixture_def by (rule if_chain_Inr)
  then show "distinct names" by auto
  from n show "\<forall>n \<in> set names.
      small_identifiers (hackBadSemver n) \<and>
      (startsWith n ''app_'' \<and> endsWith n ''.elf'' \<longrightarrow>
         small_identifiers (slice 4 (length n - 4) n))"
    using small_identifiers_fixture by (auto simp: slice_def startsWith_def)
next
  fix names assume "fixture ''1.6.0'' ''2.0.0'' ''apps'' = Inr names"
  then have n: "names = [''nanos'', ''nanox'']" by (simp add: fixture_def)
  then show "distinct (map (\<lambda>e. toLowerCase (fst e)) (model_entries names))"
    by (simp add: modelMapPriority_def lookup_property_def toLowerCase_def lower_char_def)
  from n show "\<forall>n \<in> set names. toLowerCase n \<notin> set object_prototype_keys"
    by (simp add: object_prototype_keys_def toLowerCase_def lower_char_def)
qed

text \<open>
  C2, as amended. On every tree on which the scan returns, in which the names in a
  directory are pairwise different, no two model directories differ by letter case
  only, no directory under the root is named by a key of the prototype (as
  \<open>constructor\<close> is) and no name carries a numeric pre-release identifier of
  \<open>2^53 - 1\<close> or more, the candidates are ordered by model priority (nanos before nanox
  before blue), within a model by descending normalised firmware version, and within a
  model, firmware and application by descending application version. On the tree of
  the example with firmwares \<open>1.6.0\<close> and \<open>2.0.0\<close> the scan returns nanos/2.0.0/1.3.1,
  nanos/2.0.0/1.2.0, nanos/1.6.0/1.3.1, nanos/1.6.0/1.2.0 and then the same four under
  nanox.
\<close>

theorem listAppCandidates_ordered:
  "(ordinary_tree readdir cwd \<and> listAppCandidates readdir cwd = Inr cs \<longrightarrow>
      sorted_wrt precedes cs)
   \<and> listAppCandidates (fixture ''1.6.0'' ''2.0.0'') ''apps'' = Inr fixtureCandidates"
proof (intro conjI impI)
  assume "ordinary_tree readdir cwd \<and> listAppCandidates readdir cwd = Inr cs"
  then show "sorted_wrt precedes cs"
    using listAppCandidates_ordered_general by blast
next
  show "listAppCandidates (fixture ''1.6.0'' ''2.0.0'') ''apps'' = Inr fixtureCandidates"
    by (rule listAppCandidates_fixture)
qed

theorem listAppCandidates_ordered_witness:
  "sorted_wrt precedes fixtureCandidates"
  using listAppCandidates_ordered [of "fixture ''1.6.0'' ''2.0.0''" "''apps''" fixtureCandidates]
    ordinary_fixture
  by blast

text \<open>
  The claim as stated fails on its own example: with the firmware directories named
  \<open>1.6\<close> and \<open>2.0\<close> the comparison of the two normalised names throws, and the scan
  returns no sequence. It fails on three trees on which the scan returns. With the
  directories \<open>nanos\<close> and \<open>NANOS\<close> the firmware 1.6.0 of the first comes before the
  firmware 2.0.0 of the second, for the same model. With a directory \<open>constructor\<close>
  listed between \<open>blue\<close> and \<open>nanos\<close> the candidate of \<open>blue\<close> comes before the one of
  \<open>nanos\<close>. With pre-release identifiers above \<open>2^53\<close> the version
  \<open>1.0.0-9007199254740993.1\<close> comes before \<open>1.0.0-9007199254740993.9\<close>.
\<close>

theorem listAppCandidates_fixture_counterexample:
  "listAppCandidates (fixture ''1.6'' ''2.0'') ''apps'' = Inl InvalidVersion
   \<and> listAppCandidates caseTree ''apps'' = Inr caseCandidates
   \<and> \<not> sorted_wrt precedes caseCandidates
   \<and> listAppCandidates prototypeTree ''apps'' = Inr prototypeCandidates
   \<and> \<not> sorted_wrt precedes prototypeCandidates
   \<and> listAppCandidates roundingTree ''apps'' = Inr roundingCandidates
   \<and> \<not> sorted_wrt precedes roundingCandidates"
  using listAppCandidates_fixture_short listAppCandidates_caseTree not_sorted_caseCandidates
    listAppCandidates_prototypeTree not_sorted_prototypeCandidates
    listAppCandidates_roundingTree not_sorted_roundingCandidates
  by blast

end
